theory Spec2Isabelle
  imports Main "HOL-Library.Sublist" "HOL-Library.AList"
begin

section \<open>The rate limiter and the retry executor (utils/rateLimiter.js)\<close>

text \<open>
  Times are milliseconds, as \<open>Date.now()\<close> gives them. The limiter keeps the interval
  \<open>Math.ceil(1000 / requestsPerSecond)\<close>, the time of the last release, the queue of
  pending resolvers and the flag that guards its loop.
\<close>

record RateLimiter =
  minInterval :: int
  burstSize :: nat
  lastRequestTime :: int
  queue :: "nat list"
  processing :: bool

text \<open>
  The constructor. For a positive integer rate the quotient \<open>1000 / requestsPerSecond\<close>
  rounded up is \<open>(1000 + r - 1) div r\<close>. A rate of \<open>0\<close> makes the source's interval
  \<open>Infinity\<close>, which is no value of this model: the constructor gives \<open>None\<close> there.
\<close>

definition newRateLimiter :: "nat \<Rightarrow> RateLimiter option" where
  "newRateLimiter requestsPerSecond =
     (if requestsPerSecond = 0 then None
      else Some \<lparr>minInterval = (1000 + int requestsPerSecond - 1) div int requestsPerSecond,
                 burstSize = 1, lastRequestTime = 0, queue = [], processing = False\<rparr>)"

definition waitTime :: "RateLimiter \<Rightarrow> int \<Rightarrow> int" where
  "waitTime rl now = max 0 (minInterval rl - (now - lastRequestTime rl))"

text \<open>
  The environment of one \<open>acquire()\<close>, as \<open>Date.now()\<close> reads it: the time from the last
  reading of the clock to the first reading of the loop (\<open>gap\<close>), the time from the end
  of the delay given to \<open>sleep\<close> to the firing of its timer (\<open>late\<close>), and the time from
  there to the second reading of the loop (\<open>lag\<close>). They are integers: \<open>setTimeout\<close>
  and \<open>Date.now()\<close> run on different clocks, so a timer may fire a millisecond before
  its delay has passed on the clock the loop reads, and the system may set that clock
  back. The loop does not read the clock again to see whether the interval has passed.
\<close>

record pacing =
  gap :: int
  late :: int
  lag :: int

text \<open>
  One pass of the \<open>while\<close> loop of \<open>_process\<close>, started with the clock at \<open>clock\<close>:
  read the time, wait for what is missing of the interval, read the time again into
  \<open>lastRequestTime\<close>, and release the head of the queue. The result is the new limiter
  and the time of the release.
\<close>

definition process_step :: "RateLimiter \<Rightarrow> int \<Rightarrow> pacing \<Rightarrow> RateLimiter \<times> int" where
  "process_step rl clock p =
     (let now = clock + gap p;
          w = waitTime rl now;
          woke = (if 0 < w then now + w + late p else now);
          released = woke + lag p
      in (rl\<lparr>lastRequestTime := released, queue := tl (queue rl)\<rparr>, released))"

text \<open>
  \<open>acquire()\<close> by a caller that awaits each call before the next: the resolver is pushed;
  \<open>_process\<close> returns at once when the loop already runs, and otherwise runs the loop
  until the queue is empty, which here is one pass.
\<close>

definition acquire :: "RateLimiter \<Rightarrow> int \<Rightarrow> pacing \<Rightarrow> RateLimiter \<times> int option" where
  "acquire rl clock p =
     (let rl1 = rl\<lparr>queue := queue rl @ [length (queue rl)]\<rparr>
      in if processing rl1 then (rl1, None)
         else (let (rl2, t) = process_step (rl1\<lparr>processing := True\<rparr>) clock p
               in if queue rl2 = [] then (rl2\<lparr>processing := False\<rparr>, Some t)
                  else (rl2, Some t)))"

text \<open>
  \<open>N\<close> calls in sequence, each awaited: the times at which they were released. The
  clock of a call starts where the previous release left it.
\<close>

fun acquires :: "RateLimiter \<Rightarrow> int \<Rightarrow> pacing list \<Rightarrow> int list" where
  "acquires rl clock [] = []"
| "acquires rl clock (p # ps) =
     (case acquire rl clock p of
        (rl', Some t) \<Rightarrow> t # acquires rl' t ps
      | (rl', None) \<Rightarrow> [])"

text \<open>
  No timer of the call fired before its delay had passed, and the clock did not go back
  between the firing and the second reading.
\<close>

definition punctual :: "pacing \<Rightarrow> bool" where
  "punctual p = (0 \<le> late p \<and> 0 \<le> lag p)"

text \<open>Successive elements of a list of times are at least \<open>m\<close> apart.\<close>

fun spaced :: "int \<Rightarrow> int list \<Rightarrow> bool" where
  "spaced m (a # b # ts) = (a + m \<le> b \<and> spaced m (b # ts))"
| "spaced m ts = True"

subsection \<open>retryWithBackoff\<close>

text \<open>
  What a JavaScript \<open>throw\<close> carries: an error value, or \<open>undefined\<close> (the initial
  value of \<open>lastError\<close>).
\<close>

datatype 'e thrown = Undefined | Thrown 'e

record 'e retry_options =
  maxAttempts :: nat
  baseDelay :: nat
  maxDelay :: nat
  factor :: nat
  retryOn :: "'e \<Rightarrow> bool"

text \<open>
  The result of a run: what was returned or thrown, the attempt numbers passed to the
  operation in call order, and the delay computed before each retry
  (\<open>min (baseDelay * factor ^ (attempt - 1)) maxDelay\<close>; the source sleeps for this
  value scaled by a random factor between 0.5 and 1, which changes no result).
\<close>

record ('e, 'a) retry_run =
  outcome :: "'e thrown + 'a"
  attempts :: "nat list"
  delays :: "nat list"

text \<open>
  The \<open>for\<close> loop, from attempt \<open>attempt\<close> on. The operation is a function of the
  attempt number: \<open>Inr\<close> its result, \<open>Inl\<close> the error it throws.
\<close>

function retry_loop ::
  "(nat \<Rightarrow> 'e + 'a) \<Rightarrow> 'e retry_options \<Rightarrow> nat \<Rightarrow> 'e thrown \<Rightarrow> nat list \<Rightarrow> nat list
     \<Rightarrow> ('e, 'a) retry_run" where
  "retry_loop fn opts attempt lastError calls ds =
     (if attempt \<le> maxAttempts opts then
        (case fn attempt of
           Inr v \<Rightarrow> \<lparr>outcome = Inr v, attempts = calls @ [attempt], delays = ds\<rparr>
         | Inl err \<Rightarrow>
             (if attempt = maxAttempts opts \<or> \<not> retryOn opts err
              then \<lparr>outcome = Inl (Thrown err), attempts = calls @ [attempt], delays = ds\<rparr>
              else retry_loop fn opts (attempt + 1) (Thrown err) (calls @ [attempt])
                     (ds @ [min (baseDelay opts * factor opts ^ (attempt - 1)) (maxDelay opts)])))
      else \<lparr>outcome = Inl lastError, attempts = calls, delays = ds\<rparr>)"
  by pat_completeness auto
termination
  by (relation "measure (\<lambda>(fn, opts, attempt, lastError, calls, ds). maxAttempts opts + 1 - attempt)")
     auto

declare retry_loop.simps [simp del]

definition retryWithBackoff :: "(nat \<Rightarrow> 'e + 'a) \<Rightarrow> 'e retry_options \<Rightarrow> ('e, 'a) retry_run" where
  "retryWithBackoff fn opts = retry_loop fn opts 1 Undefined [] []"

section \<open>JavaScript values\<close>

text \<open>
  A string-valued property that may be \<open>null\<close> or \<open>undefined\<close> is a \<open>string option\<close>.
  It is falsy when it is absent or the empty string.
\<close>

definition falsy :: "string option \<Rightarrow> bool" where
  "falsy v = (case v of None \<Rightarrow> True | Some s \<Rightarrow> s = [])"

text \<open>\<open>a || b\<close>, and a value placed in a template literal.\<close>

definition js_or :: "string option \<Rightarrow> string option \<Rightarrow> string option" where
  "js_or a b = (if falsy a then b else a)"

definition template :: "string option \<Rightarrow> string" where
  "template v = (case v of None \<Rightarrow> ''undefined'' | Some s \<Rightarrow> s)"

text \<open>\<open>s.includes(sub)\<close>.\<close>

primrec str_includes :: "string \<Rightarrow> string \<Rightarrow> bool" where
  "str_includes [] sub = (sub = [])"
| "str_includes (c # cs) sub = (prefix sub (c # cs) \<or> str_includes cs sub)"

section \<open>Constants (utils/constants.js)\<close>

definition TOKEN_REFRESH_BUFFER_SECONDS :: int where
  "TOKEN_REFRESH_BUFFER_SECONDS = 3600"

definition ADDED :: string where "ADDED = ''added''"
definition ALREADY_IN :: string where "ALREADY_IN = ''already_in_server''"
definition FAILED :: string where "FAILED = ''failed''"
definition SKIPPED_MANUAL :: string where "SKIPPED_MANUAL = ''skipped_manual''"
definition TOKEN_REVOKED :: string where "TOKEN_REVOKED = ''token_revoked''"
definition REFRESH_FAILED :: string where "REFRESH_FAILED = ''refresh_failed''"

section \<open>The store (database/migrations/001_initial.sql, database/queries/users.js)\<close>

text \<open>
  The tables the migration reads and writes, with the columns it uses. Tokens are stored
  encrypted; timestamps are milliseconds.
\<close>

record verified_user =
  discord_id :: string
  access_token :: "string option"
  refresh_token :: "string option"
  token_expires_at :: "int option"
  manually_verified :: bool
  verified_at :: int
  token_revoked :: bool
  revoked_at :: "int option"

record migration_run =
  run_id :: nat
  target_guild_id :: string
  initiated_by :: string
  started_at :: int
  completed_at :: "int option"
  total_users :: nat
  added_count :: nat
  already_in_count :: nat
  failed_count :: nat
  skipped_manual :: nat
  token_revoked_count :: nat
  status :: string
  error_message :: "string option"

record user_log =
  migration_run_id :: nat
  log_discord_id :: string
  log_status :: string
  log_error_message :: "string option"
  attempted_at :: int

record audit_entry =
  action :: string
  actor_id :: string
  target_id :: string

record database =
  verified_users :: "verified_user list"
  migration_runs :: "migration_run list"
  migration_user_log :: "user_log list"
  audit_log :: "audit_entry list"

text \<open>\<open>SELECT * FROM verified_users WHERE token_revoked = FALSE ORDER BY verified_at ASC\<close>.\<close>

definition getAllVerifiedUsers :: "database \<Rightarrow> verified_user list" where
  "getAllVerifiedUsers db = sort_key verified_at (filter (\<lambda>u. \<not> token_revoked u) (verified_users db))"

definition updateTokens ::
  "string \<Rightarrow> string option \<Rightarrow> string option \<Rightarrow> int \<Rightarrow> database \<Rightarrow> database" where
  "updateTokens discordId accessToken refreshToken tokenExpiresAt db =
     db\<lparr>verified_users :=
          map (\<lambda>u. if discord_id u = discordId
                    then u\<lparr>access_token := accessToken, refresh_token := refreshToken,
                           token_expires_at := Some tokenExpiresAt\<rparr>
                    else u)
              (verified_users db)\<rparr>"

definition markTokenRevoked :: "int \<Rightarrow> string \<Rightarrow> database \<Rightarrow> database" where
  "markTokenRevoked now discordId db =
     db\<lparr>verified_users :=
          map (\<lambda>u. if discord_id u = discordId
                    then u\<lparr>token_revoked := True, revoked_at := Some now,
                           access_token := None, refresh_token := None\<rparr>
                    else u)
              (verified_users db)\<rparr>"

text \<open>
  \<open>INSERT INTO migration_runs ... RETURNING *\<close>: the serial id is one more than every id
  in the table, the other columns take their defaults.
\<close>

definition next_run_id :: "database \<Rightarrow> nat" where
  "next_run_id db = Suc (fold max (map run_id (migration_runs db)) 0)"

definition createMigrationRun ::
  "int \<Rightarrow> string \<Rightarrow> string \<Rightarrow> nat \<Rightarrow> database \<Rightarrow> migration_run \<times> database" where
  "createMigrationRun now targetGuildId initiatedBy totalUsers db =
     (let r = \<lparr>run_id = next_run_id db, target_guild_id = targetGuildId,
                initiated_by = initiatedBy, started_at = now, completed_at = None,
                total_users = totalUsers, added_count = 0, already_in_count = 0,
                failed_count = 0, skipped_manual = 0, token_revoked_count = 0,
                status = ''running'', error_message = None\<rparr>
      in (r, db\<lparr>migration_runs := migration_runs db @ [r]\<rparr>))"

text \<open>The counters of a pass (\<open>counts\<close> in \<open>executeMigration\<close>).\<close>

record counts =
  added :: nat
  alreadyIn :: nat
  failed :: nat
  skippedManual :: nat
  tokenRevoked :: nat
  total :: nat

definition completeMigrationRun :: "int \<Rightarrow> nat \<Rightarrow> counts \<Rightarrow> database \<Rightarrow> database" where
  "completeMigrationRun now runId c db =
     db\<lparr>migration_runs :=
          map (\<lambda>r. if run_id r = runId
                    then r\<lparr>completed_at := Some now, status := ''completed'',
                           added_count := added c, already_in_count := alreadyIn c,
                           failed_count := failed c, skipped_manual := skippedManual c,
                           token_revoked_count := tokenRevoked c\<rparr>
                    else r)
              (migration_runs db)\<rparr>"

definition failMigrationRun :: "int \<Rightarrow> nat \<Rightarrow> string \<Rightarrow> database \<Rightarrow> database" where
  "failMigrationRun now runId errorMessage db =
     db\<lparr>migration_runs :=
          map (\<lambda>r. if run_id r = runId
                    then r\<lparr>completed_at := Some now, status := ''failed'',
                           error_message := Some errorMessage\<rparr>
                    else r)
              (migration_runs db)\<rparr>"

definition logMigrationUser ::
  "int \<Rightarrow> nat \<Rightarrow> string \<Rightarrow> string \<Rightarrow> string option \<Rightarrow> database \<Rightarrow> database" where
  "logMigrationUser now migrationRunId discordId st errorMessage db =
     db\<lparr>migration_user_log := migration_user_log db @
          [\<lparr>migration_run_id = migrationRunId, log_discord_id = discordId, log_status = st,
            log_error_message = errorMessage, attempted_at = now\<rparr>]\<rparr>"

text \<open>
  \<open>new Map(rows.map(r => [r.discord_id, r.status]))\<close>: a JavaScript \<open>Map\<close> keeps its keys
  in insertion order, and a key set again keeps its place and takes the new value.
\<close>

definition getProcessedUsersForRun :: "nat \<Rightarrow> database \<Rightarrow> (string \<times> string) list" where
  "getProcessedUsersForRun migrationRunId db =
     foldl (\<lambda>m r. AList.update (log_discord_id r) (log_status r) m) []
       (filter (\<lambda>r. migration_run_id r = migrationRunId) (migration_user_log db))"

text \<open>
  \<open>SELECT ... WHERE target_guild_id = $1 AND status = 'running' ORDER BY started_at DESC
  LIMIT 1\<close>.
\<close>

definition getIncompleteMigrationRun :: "string \<Rightarrow> database \<Rightarrow> migration_run option" where
  "getIncompleteMigrationRun targetGuildId db =
     (case rev (sort_key started_at
                  (filter (\<lambda>r. target_guild_id r = targetGuildId \<and> status r = ''running'')
                     (migration_runs db))) of
        [] \<Rightarrow> None
      | r # rs \<Rightarrow> Some r)"

definition writeAuditLog :: "string \<Rightarrow> string \<Rightarrow> string \<Rightarrow> database \<Rightarrow> database" where
  "writeAuditLog act actor target db =
     db\<lparr>audit_log := audit_log db @ [\<lparr>action = act, actor_id = actor, target_id = target\<rparr>]\<rparr>"

section \<open>The environment\<close>

text \<open>
  What the program reads from outside: the configuration, the clock, the cipher, the
  provider's replies, and which of the engine's calls to the store and to the chat
  service throw. A thrown \<open>Error\<close> is its message.
\<close>

record config =
  concurrency :: nat
  retryAttempts :: nat
  progressInterval :: nat

text \<open>The body of the provider's reply to a token request.\<close>

record token_response =
  statusCode :: nat
  r_error :: "string option"
  r_error_description :: "string option"
  r_access_token :: "string option"
  r_refresh_token :: "string option"
  r_expires_in :: int

text \<open>
  The reply to a guild join: its status, and its body read as JSON (\<open>Inl\<close> the error of
  the parser, \<open>Inr\<close> the member \<open>message\<close> and the body as \<open>JSON.stringify\<close> prints it).
\<close>

record guild_response =
  g_statusCode :: nat
  g_body :: "string + (string option \<times> string)"

text \<open>
  The awaited calls of \<open>executeMigration\<close> outside its loop, and the two statements
  \<open>ensureFreshToken\<close> sends to the store for a user.
\<close>

datatype step =
  GetIncompleteMigrationRun | GetProcessedUsersForRun | SendResumeNotice | GetAllVerifiedUsers
  | CreateMigrationRun | AuditStart | SendStart | CompleteMigrationRun | AuditComplete
  | SendFinal | SendFailedUsers | UpdateTokens string | MarkTokenRevoked string

record environment =
  guild_cached :: "string \<Rightarrow> bool"
  throws :: "step \<Rightarrow> string option"
  sql_now :: int
  date_now :: "string \<Rightarrow> int"
  date_refreshed :: "string \<Rightarrow> int"
  decipher :: "string \<Rightarrow> string + string"
  encipher :: "string \<Rightarrow> string"
  token_endpoint :: "string option \<Rightarrow> string + token_response"
  guild_join :: "string \<Rightarrow> string \<Rightarrow> string option \<Rightarrow> nat \<Rightarrow> string + guild_response"

section \<open>Encryption (services/encryption.js)\<close>

text \<open>Both return \<open>null\<close> for a falsy argument; \<open>decrypt\<close> throws on a payload it cannot open.\<close>

definition encrypt :: "environment \<Rightarrow> string option \<Rightarrow> string option" where
  "encrypt env plaintext = (if falsy plaintext then None else Some (encipher env (the plaintext)))"

definition decrypt :: "environment \<Rightarrow> string option \<Rightarrow> string + string option" where
  "decrypt env encryptedPayload =
     (if falsy encryptedPayload then Inr None
      else (case decipher env (the encryptedPayload) of
              Inl e \<Rightarrow> Inl e
            | Inr plaintext \<Rightarrow> Inr (Some plaintext)))"

section \<open>Tokens and guild joins (services/oauth.js)\<close>

record new_tokens =
  accessToken :: "string option"
  refreshToken_new :: "string option"
  expiresIn :: int

text \<open>
  The \<open>POST\<close> of \<open>request(DISCORD_OAUTH_TOKEN, ...)\<close> with the grant type
  \<open>refresh_token\<close>, read to the end of \<open>response.body.json()\<close>: the reply, or the
  message of the error thrown, and the request sent, given by its \<open>refresh_token\<close>
  parameter.
\<close>

definition request_token_endpoint ::
  "environment \<Rightarrow> string option \<Rightarrow> (string + token_response) \<times> string option list" where
  "request_token_endpoint env refresh = (token_endpoint env refresh, [refresh])"

text \<open>
  \<open>refreshToken\<close>: the stored refresh token is decrypted and posted to the token
  endpoint. The result is what the function returns or the message of what it throws,
  and the requests it sent to the endpoint: none when \<open>decrypt\<close> throws, else those of
  its one \<open>POST\<close>, whether that is answered or fails.
\<close>

definition refreshToken ::
  "environment \<Rightarrow> string option \<Rightarrow> (string + new_tokens) \<times> string option list" where
  "refreshToken env encryptedRefreshToken =
     (case decrypt env encryptedRefreshToken of
        Inl e \<Rightarrow> (Inl e, [])
      | Inr decryptedRefresh \<Rightarrow>
          (let posted = request_token_endpoint env decryptedRefresh in
           (case fst posted of
              Inl e \<Rightarrow> Inl e
            | Inr response \<Rightarrow>
                (if statusCode response = 200
                 then Inr \<lparr>accessToken = r_access_token response,
                           refreshToken_new = r_refresh_token response,
                           expiresIn = r_expires_in response\<rparr>
                 else Inl (''Token refresh failed: ''
                           @ template (js_or (r_error_description response) (r_error response)))),
            snd posted)))"

text \<open>
  The \<open>catch\<close> block of \<open>ensureFreshToken\<close>, entered with the message of the error
  caught: the token returned or the message of the error thrown, and the store
  afterwards. \<open>markTokenRevoked\<close> is one statement; when it throws, the store is as
  before and its error leaves the function.
\<close>

definition refreshCatch ::
  "environment \<Rightarrow> verified_user \<Rightarrow> database \<Rightarrow> string \<Rightarrow> (string + string option) \<times> database" where
  "refreshCatch env user db message =
     (if str_includes message ''invalid_grant'' \<or> str_includes message ''revoked''
      then (case throws env (MarkTokenRevoked (discord_id user)) of
              Some e \<Rightarrow> (Inl e, db)
            | None \<Rightarrow> (Inl ''TOKEN_REVOKED'', markTokenRevoked (sql_now env) (discord_id user) db))
      else (Inl message, db))"

text \<open>
  The result of \<open>ensureFreshToken\<close>: the token returned or the message of the error thrown,
  the store afterwards, and the requests sent to the token endpoint, which are those of
  its call of \<open>refreshToken\<close>. An error of \<open>refreshToken\<close> and an error of \<open>updateTokens\<close>
  are both caught by the \<open>catch\<close> block.
\<close>

record fresh_token =
  token :: "string + string option"
  store :: database
  requests :: "string option list"

definition ensureFreshToken :: "environment \<Rightarrow> verified_user \<Rightarrow> database \<Rightarrow> fresh_token" where
  "ensureFreshToken env user db =
     (let now = date_now env (discord_id user);
          expiresAt = (case token_expires_at user of None \<Rightarrow> 0 | Some t \<Rightarrow> t);
          bufferMs = TOKEN_REFRESH_BUFFER_SECONDS * 1000
      in if expiresAt - now > bufferMs
         then \<lparr>token = decrypt env (access_token user), store = db, requests = []\<rparr>
         else (let exchange = refreshToken env (refresh_token user) in
               case fst exchange of
                 Inr newTokens \<Rightarrow>
                   (case throws env (UpdateTokens (discord_id user)) of
                      None \<Rightarrow>
                        \<lparr>token = Inr (accessToken newTokens),
                         store = updateTokens (discord_id user)
                                   (encrypt env (accessToken newTokens))
                                   (encrypt env (refreshToken_new newTokens))
                                   (date_refreshed env (discord_id user) + expiresIn newTokens * 1000)
                                   db,
                         requests = snd exchange\<rparr>
                    | Some e \<Rightarrow>
                        \<lparr>token = fst (refreshCatch env user db e),
                         store = snd (refreshCatch env user db e),
                         requests = snd exchange\<rparr>)
               | Inl message \<Rightarrow>
                   \<lparr>token = fst (refreshCatch env user db message),
                    store = snd (refreshCatch env user db message),
                    requests = snd exchange\<rparr>))"

text \<open>
  What \<open>addUserToGuild\<close> returns: the status and the error text (\<open>retryAfter\<close> and
  \<open>statusCode\<close> only feed a pause and the log).
\<close>

record join_result =
  j_status :: string
  j_error :: "string option"

definition addUserToGuild ::
  "environment \<Rightarrow> string \<Rightarrow> string \<Rightarrow> string option \<Rightarrow> nat \<Rightarrow> string + join_result" where
  "addUserToGuild env guildId userId accessTok n =
     (case guild_join env guildId userId accessTok n of
        Inl e \<Rightarrow> Inl e
      | Inr response \<Rightarrow>
          (if g_statusCode response = 201 then Inr \<lparr>j_status = ''added'', j_error = None\<rparr>
           else if g_statusCode response = 204
           then Inr \<lparr>j_status = ''already_in_server'', j_error = None\<rparr>
           else if g_statusCode response = 429
           then (case g_body response of
                   Inl e \<Rightarrow> Inl e
                 | Inr data \<Rightarrow> Inr \<lparr>j_status = ''rate_limited'', j_error = None\<rparr>)
           else (case g_body response of
                   Inl e \<Rightarrow> Inr \<lparr>j_status = ''failed'', j_error = Some ''Unknown error''\<rparr>
                 | Inr errorData \<Rightarrow>
                     Inr \<lparr>j_status = ''failed'',
                          j_error = js_or (fst errorData) (Some (snd errorData))\<rparr>)))"

section \<open>The migration (services/migration.js)\<close>

text \<open>
  The operation handed to \<open>retryWithBackoff\<close>: one join; a rate-limited reply is waited
  out and thrown as \<open>RATE_LIMITED\<close>.
\<close>

definition joinAttempt ::
  "environment \<Rightarrow> string \<Rightarrow> string \<Rightarrow> string option \<Rightarrow> nat \<Rightarrow> string + join_result" where
  "joinAttempt env targetGuildId discordId accessTok attempt =
     (case addUserToGuild env targetGuildId discordId accessTok attempt of
        Inl e \<Rightarrow> Inl e
      | Inr joinResult \<Rightarrow>
          (if j_status joinResult = ''rate_limited'' then Inl ''RATE_LIMITED''
           else Inr joinResult))"

definition joinOptions :: "config \<Rightarrow> string retry_options" where
  "joinOptions cfg =
     \<lparr>maxAttempts = retryAttempts cfg, baseDelay = 2000, maxDelay = 60000, factor = 2,
      retryOn = (\<lambda>err. err = ''RATE_LIMITED'')\<rparr>"

text \<open>
  \<open>processSingleUser\<close>: the status returned or the value thrown, and the store afterwards.
  The waits (\<open>rateLimiter.acquire()\<close>, \<open>sleep\<close>) change neither. The detail logged for a
  user without tokens has a hyphen where the source has a dash.
\<close>

definition processSingleUser ::
  "config \<Rightarrow> environment \<Rightarrow> verified_user \<Rightarrow> string \<Rightarrow> nat \<Rightarrow> database
     \<Rightarrow> (string thrown + string) \<times> database" where
  "processSingleUser cfg env user targetGuildId migrationRunId db =
     (let discordId = discord_id user in
      if manually_verified user \<and> falsy (access_token user)
      then (Inr SKIPPED_MANUAL,
            logMigrationUser (sql_now env) migrationRunId discordId SKIPPED_MANUAL
              (Some ''No OAuth tokens - manually verified only'') db)
      else if token_revoked user
      then (Inr TOKEN_REVOKED,
            logMigrationUser (sql_now env) migrationRunId discordId TOKEN_REVOKED
              (Some ''Token previously revoked'') db)
      else (let fresh = ensureFreshToken env user db in
            case token fresh of
              Inl message \<Rightarrow>
                (if message = ''TOKEN_REVOKED''
                 then (Inr TOKEN_REVOKED,
                       logMigrationUser (sql_now env) migrationRunId discordId TOKEN_REVOKED
                         (Some ''Token revoked during refresh'') (store fresh))
                 else (Inr REFRESH_FAILED,
                       logMigrationUser (sql_now env) migrationRunId discordId REFRESH_FAILED
                         (Some message) (store fresh)))
            | Inr accessTok \<Rightarrow>
                (case outcome (retryWithBackoff
                                 (joinAttempt env targetGuildId discordId accessTok)
                                 (joinOptions cfg)) of
                   Inl err \<Rightarrow> (Inl err, store fresh)
                 | Inr result \<Rightarrow>
                     (Inr (j_status result),
                      logMigrationUser (sql_now env) migrationRunId discordId (j_status result)
                        (js_or (j_error result) None) (store fresh)))))"

text \<open>
  The \<open>switch\<close> on the result of a user: the counter it adds to, and whether the user
  is pushed on \<open>failedUsers\<close>.
\<close>

definition tally :: "string \<Rightarrow> counts \<Rightarrow> counts" where
  "tally result c =
     (if result = ADDED then c\<lparr>added := added c + 1\<rparr>
      else if result = ALREADY_IN then c\<lparr>alreadyIn := alreadyIn c + 1\<rparr>
      else if result = SKIPPED_MANUAL then c\<lparr>skippedManual := skippedManual c + 1\<rparr>
      else if result = TOKEN_REVOKED \<or> result = REFRESH_FAILED
      then c\<lparr>tokenRevoked := tokenRevoked c + 1\<rparr>
      else c\<lparr>failed := failed c + 1\<rparr>)"

definition counted_failed :: "string \<Rightarrow> bool" where
  "counted_failed result =
     (if result = ADDED then False
      else if result = ALREADY_IN then False
      else if result = SKIPPED_MANUAL then False
      else if result = TOKEN_REVOKED \<or> result = REFRESH_FAILED then False
      else True)"

text \<open>The variables of the loop.\<close>

record pass =
  db :: database
  cnt :: counts
  processed :: nat
  failedUsers :: "string list"

text \<open>
  One turn of the \<open>for\<close> loop. A value thrown by \<open>processSingleUser\<close> is caught and counted;
  the handler then reads \<open>err.message\<close>, which throws a \<open>TypeError\<close> of its own when the
  value caught is \<open>undefined\<close>, and that error leaves the loop (\<open>Inl\<close>, with the store as
  it is then). The progress message that follows catches its own errors.
\<close>

definition processUser ::
  "config \<Rightarrow> environment \<Rightarrow> string \<Rightarrow> nat \<Rightarrow> verified_user \<Rightarrow> pass \<Rightarrow> (string \<times> database) + pass" where
  "processUser cfg env targetGuildId migrationRunId user p =
     (case processSingleUser cfg env user targetGuildId migrationRunId (db p) of
        (Inr result, db') \<Rightarrow>
          Inr (p\<lparr>db := db', cnt := tally result (cnt p), processed := Suc (processed p),
                 failedUsers := (if counted_failed result
                                 then failedUsers p @ [discord_id user] else failedUsers p)\<rparr>)
      | (Inl (Thrown message), db') \<Rightarrow>
          Inr (p\<lparr>db := db', cnt := (cnt p)\<lparr>failed := failed (cnt p) + 1\<rparr>,
                 processed := Suc (processed p),
                 failedUsers := failedUsers p @ [discord_id user]\<rparr>)
      | (Inl Undefined, db') \<Rightarrow>
          Inl (''Cannot read properties of undefined (reading 'message')'', db'))"

fun processUsers ::
  "config \<Rightarrow> environment \<Rightarrow> string \<Rightarrow> nat \<Rightarrow> verified_user list \<Rightarrow> pass \<Rightarrow> (string \<times> database) + pass" where
  "processUsers cfg env targetGuildId migrationRunId [] p = Inr p"
| "processUsers cfg env targetGuildId migrationRunId (user # users) p =
     (case processUser cfg env targetGuildId migrationRunId user p of
        Inl e \<Rightarrow> Inl e
      | Inr p' \<Rightarrow> processUsers cfg env targetGuildId migrationRunId users p')"

text \<open>\<open>alreadyProcessed.has(id)\<close>.\<close>

definition has :: "(string \<times> string) list \<Rightarrow> string \<Rightarrow> bool" where
  "has m k = (k \<in> fst ` set m)"

text \<open>
  Sections 1 and 2 of \<open>executeMigration\<close>: the target guild must be in the client's cache;
  a run of the target that is still \<open>running\<close> is taken up again with the map of the users
  its log holds.
\<close>

definition resolveRun ::
  "environment \<Rightarrow> string \<Rightarrow> database \<Rightarrow> string + (migration_run option \<times> (string \<times> string) list)" where
  "resolveRun env targetGuildId d =
     (if guild_cached env targetGuildId then
        (case throws env GetIncompleteMigrationRun of
           Some e \<Rightarrow> Inl e
         | None \<Rightarrow>
             (case getIncompleteMigrationRun targetGuildId d of
                None \<Rightarrow> Inr (None, [])
              | Some existingRun \<Rightarrow>
                  (case throws env GetProcessedUsersForRun of
                     Some e \<Rightarrow> Inl e
                   | None \<Rightarrow>
                       (case throws env SendResumeNotice of
                          Some e \<Rightarrow> Inl e
                        | None \<Rightarrow>
                            Inr (Some existingRun,
                                 getProcessedUsersForRun (run_id existingRun) d)))))
      else Inl (''Bot is not in guild `'' @ targetGuildId @ ''`. Invite the bot first, then retry.''))"

text \<open>What the loop starts from.\<close>

record prepared =
  migrationRun :: migration_run
  alreadyProcessed :: "(string \<times> string) list"
  allUsers :: "verified_user list"
  usersToProcess :: "verified_user list"

text \<open>The audit entry and the message that open a pass (end of section 3, section 4).\<close>

definition announceStart ::
  "environment \<Rightarrow> string \<Rightarrow> string \<Rightarrow> prepared \<Rightarrow> database \<Rightarrow> (string + prepared) \<times> database" where
  "announceStart env targetGuildId initiatedBy prep d =
     (case throws env AuditStart of
        Some e \<Rightarrow> (Inl e, d)
      | None \<Rightarrow>
          (let d' = writeAuditLog ''migration_start'' initiatedBy targetGuildId d in
           case throws env SendStart of
             Some e \<Rightarrow> (Inl e, d')
           | None \<Rightarrow> (Inr prep, d')))"

text \<open>
  Section 3: fetch the users, leave out those of the map, and create the run unless one
  is taken up again.
\<close>

definition prepareRun ::
  "environment \<Rightarrow> string \<Rightarrow> string \<Rightarrow> migration_run option \<times> (string \<times> string) list
     \<Rightarrow> database \<Rightarrow> (string + prepared) \<times> database" where
  "prepareRun env targetGuildId initiatedBy resolved d =
     (case throws env GetAllVerifiedUsers of
        Some e \<Rightarrow> (Inl e, d)
      | None \<Rightarrow>
          (let users = getAllVerifiedUsers d;
               already = snd resolved;
               todo = (if 0 < length already
                       then filter (\<lambda>u. \<not> has already (discord_id u)) users else users)
           in if users = [] then (Inl ''No verified users found in the database.'', d)
              else (case fst resolved of
                      Some run \<Rightarrow>
                        announceStart env targetGuildId initiatedBy
                          \<lparr>migrationRun = run, alreadyProcessed = already, allUsers = users,
                           usersToProcess = todo\<rparr> d
                    | None \<Rightarrow>
                        (case throws env CreateMigrationRun of
                           Some e \<Rightarrow> (Inl e, d)
                         | None \<Rightarrow>
                             (let created = createMigrationRun (sql_now env) targetGuildId
                                              initiatedBy (length users) d
                              in announceStart env targetGuildId initiatedBy
                                   \<lparr>migrationRun = fst created, alreadyProcessed = already,
                                    allUsers = users, usersToProcess = todo\<rparr> (snd created))))))"

definition startPass :: "prepared \<Rightarrow> database \<Rightarrow> pass" where
  "startPass prep d =
     \<lparr>db = d,
      cnt = \<lparr>added = 0, alreadyIn = 0, failed = 0, skippedManual = 0, tokenRevoked = 0,
             total = length (usersToProcess prep)\<rparr>,
      processed = 0, failedUsers = []\<rparr>"

text \<open>The second \<open>switch\<close>, on a status of the earlier log.\<close>

definition mergeStatus :: "string \<Rightarrow> counts \<Rightarrow> counts" where
  "mergeStatus st c =
     (if st = ADDED then c\<lparr>added := added c + 1\<rparr>
      else if st = ALREADY_IN then c\<lparr>alreadyIn := alreadyIn c + 1\<rparr>
      else if st = SKIPPED_MANUAL then c\<lparr>skippedManual := skippedManual c + 1\<rparr>
      else if st = TOKEN_REVOKED \<or> st = REFRESH_FAILED then c\<lparr>tokenRevoked := tokenRevoked c + 1\<rparr>
      else c\<lparr>failed := failed c + 1\<rparr>)"

definition mergedCounts :: "(string \<times> string) list \<Rightarrow> counts \<Rightarrow> counts" where
  "mergedCounts already c =
     (if 0 < length already then foldl (\<lambda>c' entry. mergeStatus (snd entry) c') c already else c)"

text \<open>Section 6: the counts of the earlier log are added, the run is completed and reported.\<close>

definition finalizeRun ::
  "environment \<Rightarrow> string \<Rightarrow> string \<Rightarrow> prepared \<Rightarrow> pass \<Rightarrow> (string + unit) \<times> database" where
  "finalizeRun env targetGuildId initiatedBy prep p =
     (let c = mergedCounts (alreadyProcessed prep) (cnt p) in
      case throws env CompleteMigrationRun of
        Some e \<Rightarrow> (Inl e, db p)
      | None \<Rightarrow>
          (let d1 = completeMigrationRun (sql_now env) (run_id (migrationRun prep)) c (db p) in
           case throws env AuditComplete of
             Some e \<Rightarrow> (Inl e, d1)
           | None \<Rightarrow>
               (let d2 = writeAuditLog ''migration_complete'' initiatedBy targetGuildId d1 in
                case throws env SendFinal of
                  Some e \<Rightarrow> (Inl e, d2)
                | None \<Rightarrow>
                    (if 0 < length (failedUsers p)
                     then (case throws env SendFailedUsers of
                             Some e \<Rightarrow> (Inl e, d2)
                           | None \<Rightarrow> (Inr (), d2))
                     else (Inr (), d2)))))"

definition executeMigration ::
  "config \<Rightarrow> environment \<Rightarrow> string \<Rightarrow> string \<Rightarrow> database \<Rightarrow> (string + unit) \<times> database" where
  "executeMigration cfg env targetGuildId initiatedBy d =
     (case resolveRun env targetGuildId d of
        Inl e \<Rightarrow> (Inl e, d)
      | Inr resolved \<Rightarrow>
          (case prepareRun env targetGuildId initiatedBy resolved d of
             (Inl e, d1) \<Rightarrow> (Inl e, d1)
           | (Inr prep, d1) \<Rightarrow>
               (case processUsers cfg env targetGuildId (run_id (migrationRun prep))
                       (usersToProcess prep) (startPass prep d1) of
                  Inl (e, d2) \<Rightarrow> (Inl e, d2)
                | Inr p \<Rightarrow> finalizeRun env targetGuildId initiatedBy prep p)))"

text \<open>
  The store a call of \<open>executeMigration\<close> leaves behind when the process is terminated
  right after the \<open>k\<close>-th user of its loop.
\<close>

definition interruptedMigration ::
  "config \<Rightarrow> environment \<Rightarrow> string \<Rightarrow> string \<Rightarrow> nat \<Rightarrow> database \<Rightarrow> database" where
  "interruptedMigration cfg env targetGuildId initiatedBy k d =
     (case resolveRun env targetGuildId d of
        Inl e \<Rightarrow> d
      | Inr resolved \<Rightarrow>
          (case prepareRun env targetGuildId initiatedBy resolved d of
             (Inl e, d1) \<Rightarrow> d1
           | (Inr prep, d1) \<Rightarrow>
               (case processUsers cfg env targetGuildId (run_id (migrationRun prep))
                       (take k (usersToProcess prep)) (startPass prep d1) of
                  Inl (e, d2) \<Rightarrow> d2
                | Inr p \<Rightarrow> db p)))"

section \<open>The ?pull command (bot/events/messageCreate.js)\<close>

text \<open>
  The \<open>try\<close> around \<open>executeMigration\<close> in the handler of \<open>?pull\<close>: an error is logged and
  answered with its message. The result is the reply, if any, and the store. The reply
  is the source's without its cross mark and its marks of emphasis.
\<close>

definition pull ::
  "config \<Rightarrow> environment \<Rightarrow> string \<Rightarrow> string \<Rightarrow> database \<Rightarrow> string option \<times> database" where
  "pull cfg env targetGuildId author d =
     (case executeMigration cfg env targetGuildId author d of
        (Inl message, d') \<Rightarrow> (Some (''Migration failed: '' @ message), d')
      | (Inr u, d') \<Rightarrow> (None, d'))"

section \<open>Predicates of the statements\<close>

text \<open>The store a loop leaves, whether it ran to its end or was left by an error.\<close>

definition store_after :: "(string \<times> database) + pass \<Rightarrow> database" where
  "store_after res = (case res of Inl e \<Rightarrow> snd e | Inr p \<Rightarrow> db p)"

text \<open>The row \<open>processSingleUser\<close> writes for a user that was revoked earlier.\<close>

definition precheck_row :: "user_log \<Rightarrow> bool" where
  "precheck_row row =
     (log_status row = TOKEN_REVOKED \<and> log_error_message row = Some ''Token previously revoked'')"

text \<open>The statuses counted as token revoked.\<close>

definition revoked_outcome :: "string \<Rightarrow> bool" where
  "revoked_outcome st = (st = TOKEN_REVOKED \<or> st = REFRESH_FAILED)"






text \<open>The users that have a row in the log of a run.\<close>

definition logged_ids :: "nat \<Rightarrow> database \<Rightarrow> string list" where
  "logged_ids rid d =
     map log_discord_id (filter (\<lambda>row. migration_run_id row = rid) (migration_user_log d))"

text \<open>
  The run and the users of the next pass for a target: a run of the target that is
  \<open>running\<close> with the users that have no row in its log, or else a new run with all
  users.
\<close>

definition resumePlan :: "string \<Rightarrow> database \<Rightarrow> nat \<times> verified_user list" where
  "resumePlan g d =
     (case getIncompleteMigrationRun g d of
        Some run \<Rightarrow>
          (run_id run,
           filter (\<lambda>u. discord_id u \<notin> set (logged_ids (run_id run) d)) (getAllVerifiedUsers d))
      | None \<Rightarrow> (next_run_id d, getAllVerifiedUsers d))"

text \<open>The rows a pass has appended to the item log.\<close>

definition newRows :: "database \<Rightarrow> database \<Rightarrow> user_log list" where
  "newRows d d' = drop (length (migration_user_log d)) (migration_user_log d')"

text \<open>
  What one pass over a target may do to the store: it appends rows of the run of its
  plan, for users of the plan, in their order and at most one for each; the run of a
  new row exists, no run disappears, and the ids of the users stay.
\<close>

definition onePass :: "string \<Rightarrow> database \<Rightarrow> database \<Rightarrow> bool" where
  "onePass g d d' \<longleftrightarrow>
     take (length (migration_user_log d)) (migration_user_log d') = migration_user_log d
     \<and> list_all (\<lambda>row. migration_run_id row = fst (resumePlan g d)) (newRows d d')
     \<and> subseq (map log_discord_id (newRows d d')) (map discord_id (snd (resumePlan g d)))
     \<and> (newRows d d' = [] \<or> fst (resumePlan g d) \<in> set (map run_id (migration_runs d')))
     \<and> set (map run_id (migration_runs d)) \<subseteq> set (map run_id (migration_runs d'))
     \<and> map discord_id (verified_users d') = map discord_id (verified_users d)"

text \<open>
  The ids of the users are a key, every row of the log belongs to a run, and in the log
  of a run no user has two rows.
\<close>

definition itemLogInvariant :: "database \<Rightarrow> bool" where
  "itemLogInvariant d \<longleftrightarrow>
     distinct (map discord_id (verified_users d))
     \<and> list_all (\<lambda>row. migration_run_id row \<in> set (map run_id (migration_runs d)))
          (migration_user_log d)
     \<and> list_all (\<lambda>r. distinct (logged_ids (run_id r) d)) (migration_runs d)"

section \<open>An example store and its environments\<close>

definition target_guild :: string where "target_guild = ''900000000000000001''"
definition owner :: string where "owner = ''800000000000000001''"

definition example_config :: config where
  "example_config = \<lparr>concurrency = 5, retryAttempts = 3, progressInterval = 25\<rparr>"

text \<open>
  \<open>A\<close> holds tokens that expire in a week, \<open>B\<close> was verified by hand and holds none,
  \<open>C\<close> is revoked, \<open>D\<close> holds tokens like \<open>A\<close>. The clock stands at 1700000000000.
\<close>

definition user_A :: verified_user where
  "user_A = \<lparr>discord_id = ''1001'', access_token = Some ''enc:access-A'',
     refresh_token = Some ''enc:refresh-A'', token_expires_at = Some 1700604800000,
     manually_verified = False, verified_at = 1690000000000, token_revoked = False,
     revoked_at = None\<rparr>"

definition user_B :: verified_user where
  "user_B = \<lparr>discord_id = ''1002'', access_token = None, refresh_token = None,
     token_expires_at = None, manually_verified = True, verified_at = 1691000000000,
     token_revoked = False, revoked_at = None\<rparr>"

definition user_C :: verified_user where
  "user_C = \<lparr>discord_id = ''1003'', access_token = None, refresh_token = None,
     token_expires_at = Some 1695000000000, manually_verified = False,
     verified_at = 1692000000000, token_revoked = True, revoked_at = Some 1696000000000\<rparr>"

definition user_D :: verified_user where
  "user_D = \<lparr>discord_id = ''1004'', access_token = Some ''enc:access-D'',
     refresh_token = Some ''enc:refresh-D'', token_expires_at = Some 1700604800000,
     manually_verified = False, verified_at = 1693000000000, token_revoked = False,
     revoked_at = None\<rparr>"

definition spec_example_store :: database where
  "spec_example_store =
     \<lparr>verified_users = [user_A, user_B, user_C], migration_runs = [],
      migration_user_log = [], audit_log = []\<rparr>"

definition resume_store :: database where
  "resume_store =
     \<lparr>verified_users = [user_A, user_D], migration_runs = [],
      migration_user_log = [], audit_log = []\<rparr>"

text \<open>
  The bot is in the target guild, nothing throws, every join is answered with 201, and
  the token endpoint cannot be reached.
\<close>

definition example_env :: environment where
  "example_env =
     \<lparr>guild_cached = (\<lambda>g. g = target_guild), throws = (\<lambda>s. None),
      sql_now = 1700000000000, date_now = (\<lambda>u. 1700000000000),
      date_refreshed = (\<lambda>u. 1700000000500),
      decipher = (\<lambda>s. Inr (drop 4 s)), encipher = (\<lambda>s. ''enc:'' @ s),
      token_endpoint = (\<lambda>t. Inl ''connect ECONNREFUSED''),
      guild_join = (\<lambda>g u t n. Inr \<lparr>g_statusCode = 201, g_body = Inl ''Unexpected end of JSON input''\<rparr>)\<rparr>"

text \<open>As \<open>example_env\<close>, but every join of the user \<open>u\<close> is answered with 429.\<close>

definition rate_limited_env :: "string \<Rightarrow> environment" where
  "rate_limited_env u =
     example_env\<lparr>guild_join :=
       (\<lambda>g u' t n. if u' = u
          then Inr \<lparr>g_statusCode = 429, g_body = Inr (Some ''You are being rate limited.'', ''{}'')\<rparr>
          else Inr \<lparr>g_statusCode = 201, g_body = Inl ''Unexpected end of JSON input''\<rparr>)\<rparr>"

text \<open>As \<open>example_env\<close>, but \<open>completeMigrationRun\<close> throws.\<close>

definition complete_fails_env :: environment where
  "complete_fails_env =
     example_env\<lparr>throws :=
       (\<lambda>s. if s = CompleteMigrationRun then Some ''Connection terminated unexpectedly''
             else None)\<rparr>"

text \<open>\<open>E\<close> holds tokens that expire in ten minutes.\<close>

definition user_E :: verified_user where
  "user_E = \<lparr>discord_id = ''1005'', access_token = Some ''enc:access-E'',
     refresh_token = Some ''enc:refresh-E'', token_expires_at = Some 1700000600000,
     manually_verified = False, verified_at = 1694000000000, token_revoked = False,
     revoked_at = None\<rparr>"

definition expiring_store :: database where
  "expiring_store =
     \<lparr>verified_users = [user_A, user_E], migration_runs = [],
      migration_user_log = [], audit_log = []\<rparr>"

text \<open>As \<open>example_env\<close>, but the token endpoint answers 400 with the error \<open>invalid_grant\<close>.\<close>

definition invalid_grant_env :: environment where
  "invalid_grant_env =
     example_env\<lparr>token_endpoint :=
       (\<lambda>t. Inr \<lparr>statusCode = 400, r_error = Some ''invalid_grant'',
                   r_error_description = None, r_access_token = None,
                   r_refresh_token = None, r_expires_in = 0\<rparr>)\<rparr>"

text \<open>
  As \<open>example_env\<close>, but the token endpoint answers 400 with the error \<open>invalid_grant\<close>
  and a description of it.
\<close>

definition described_grant_env :: environment where
  "described_grant_env =
     example_env\<lparr>token_endpoint :=
       (\<lambda>t. Inr \<lparr>statusCode = 400, r_error = Some ''invalid_grant'',
                   r_error_description = Some ''Invalid refresh token'', r_access_token = None,
                   r_refresh_token = None, r_expires_in = 0\<rparr>)\<rparr>"

text \<open>As \<open>example_env\<close>, but the request to the token endpoint fails on the server's certificate.\<close>

definition revoked_certificate_env :: environment where
  "revoked_certificate_env =
     example_env\<lparr>token_endpoint := (\<lambda>t. Inl ''certificate revoked'')\<rparr>"

text \<open>As \<open>example_env\<close>, but the token endpoint answers 200 with new tokens for a week.\<close>

definition refreshed_env :: environment where
  "refreshed_env =
     example_env\<lparr>token_endpoint :=
       (\<lambda>t. Inr \<lparr>statusCode = 200, r_error = None, r_error_description = None,
                   r_access_token = Some ''access-E2'', r_refresh_token = Some ''refresh-E2'',
                   r_expires_in = 604800\<rparr>)\<rparr>"

text \<open>As \<open>refreshed_env\<close>, but the stored refresh token of \<open>E\<close> cannot be decrypted.\<close>

definition undecipherable_env :: environment where
  "undecipherable_env =
     refreshed_env\<lparr>decipher :=
       (\<lambda>s. if s = ''enc:refresh-E''
            then Inl ''Unsupported state or unable to authenticate data''
            else Inr (drop 4 s))\<rparr>"

text \<open>The five counters of a run record, and the columns of a log row that name an outcome.\<close>

definition run_counts :: "migration_run \<Rightarrow> nat \<times> nat \<times> nat \<times> nat \<times> nat" where
  "run_counts r =
     (added_count r, already_in_count r, skipped_manual r, token_revoked_count r, failed_count r)"

definition log_entry :: "user_log \<Rightarrow> nat \<times> string \<times> string" where
  "log_entry row = (migration_run_id row, log_discord_id row, log_status row)"


section \<open>Properties of the rate limiter\<close>

lemma minInterval_covers_second:
  assumes "0 < r"
  shows "1000 \<le> ((1000 + int r - 1) div int r) * int r"
proof -
  define a where "a = 1000 + int r - 1"
  have "a mod int r < int r"
    using assms by simp
  moreover have "a div int r * int r + a mod int r = a"
    by simp
  ultimately have "a - int r < a div int r * int r" by linarith
  then show ?thesis by (simp add: a_def)
qed

lemma process_step_release:
  assumes "process_step rl clock p = (rl', t)"
  shows "lastRequestTime rl' = t" and "minInterval rl' = minInterval rl"
    and "queue rl' = tl (queue rl)" and "processing rl' = processing rl"
    and "punctual p \<Longrightarrow> lastRequestTime rl + minInterval rl \<le> t"
  using assms
  by (auto simp: process_step_def waitTime_def punctual_def Let_def split: if_splits)

text \<open>
  The time of a release when the loop had to wait: the last release, the interval, and
  what the timer and the second reading add or take away.
\<close>

lemma process_step_waited:
  assumes "clock + gap p < lastRequestTime rl + minInterval rl"
  shows "snd (process_step rl clock p) = lastRequestTime rl + minInterval rl + late p + lag p"
  using assms by (simp add: process_step_def waitTime_def Let_def)

text \<open>An idle limiter releases the caller, and is idle again afterwards.\<close>

lemma acquire_idle:
  assumes "queue rl = []" and "\<not> processing rl"
  obtains rl' t where "acquire rl clock p = (rl', Some t)"
    and "queue rl' = []" and "\<not> processing rl'"
    and "lastRequestTime rl' = t" and "minInterval rl' = minInterval rl"
    and "punctual p \<longrightarrow> lastRequestTime rl + minInterval rl \<le> t"
proof -
  obtain rl2 t where step:
    "process_step (rl\<lparr>queue := [0], processing := True\<rparr>) clock p = (rl2, t)"
    by (cases "process_step (rl\<lparr>queue := [0], processing := True\<rparr>) clock p")
  note facts = process_step_release [OF step]
  have "acquire rl clock p = (rl2\<lparr>processing := False\<rparr>, Some t)"
    using assms step facts(3) by (simp add: acquire_def)
  moreover have "queue (rl2\<lparr>processing := False\<rparr>) = []"
    using facts(3) by simp
  moreover have "punctual p \<longrightarrow> lastRequestTime rl + minInterval rl \<le> t"
    using facts(5) by simp
  ultimately show thesis
    using that [of "rl2\<lparr>processing := False\<rparr>" t] facts(1, 2) by simp
qed

lemma acquires_length:
  assumes "queue rl = []" and "\<not> processing rl"
  shows "length (acquires rl clock ps) = length ps"
  using assms
proof (induction ps arbitrary: rl clock)
  case Nil
  then show ?case by simp
next
  case (Cons p ps)
  from Cons.prems obtain rl' t where a: "acquire rl clock p = (rl', Some t)"
    and idle: "queue rl' = []" "\<not> processing rl'"
    by (rule acquire_idle)
  show ?case using a Cons.IH [OF idle] by simp
qed

lemma acquires_spaced:
  assumes "queue rl = []" and "\<not> processing rl" and "list_all punctual ps"
  shows "spaced (minInterval rl) (lastRequestTime rl # acquires rl clock ps)"
  using assms
proof (induction ps arbitrary: rl clock)
  case Nil
  then show ?case by simp
next
  case (Cons p ps)
  from Cons.prems(1,2) obtain rl' t where a: "acquire rl clock p = (rl', Some t)"
    and idle: "queue rl' = []" "\<not> processing rl'"
    and last: "lastRequestTime rl' = t" and mi: "minInterval rl' = minInterval rl"
    and first: "punctual p \<longrightarrow> lastRequestTime rl + minInterval rl \<le> t"
    by (rule acquire_idle)
  from Cons.prems(3) have p: "punctual p" and ps: "list_all punctual ps" by simp_all
  have "spaced (minInterval rl) (t # acquires rl' t ps)"
    using Cons.IH [OF idle ps, of t] last mi by simp
  then show ?case using a first p by simp
qed

lemma spaced_tail: "spaced m (t # ts) \<Longrightarrow> spaced m ts"
  by (cases ts) simp_all

lemma spaced_nth:
  "spaced m ts \<Longrightarrow> Suc i < length ts \<Longrightarrow> ts ! i + m \<le> ts ! Suc i"
proof (induction m ts arbitrary: i rule: spaced.induct)
  case (1 m a b ts)
  then show ?case by (cases i) simp_all
qed simp_all

lemma spaced_span:
  "spaced m ts \<Longrightarrow> ts \<noteq> [] \<Longrightarrow> hd ts + m * int (length ts - 1) \<le> last ts"
proof (induction m ts rule: spaced.induct)
  case (1 m a b ts)
  then have "b + m * int (length ts) \<le> last (b # ts)" by simp
  with 1 show ?case by (simp add: algebra_simps)
qed simp_all

text \<open>
  C2, with what it needs of the timers. For every rate \<open>R \<ge> 1\<close> and every \<open>N\<close> calls of
  \<open>acquire()\<close> made in sequence on a new limiter, whatever the caller does between the
  calls: all \<open>N\<close> calls are released; and when no timer fires before its delay has
  passed on the clock of \<open>Date.now()\<close> and that clock does not go back while the loop
  runs, two successive releases are at least \<open>1000 / R\<close> milliseconds apart and the last
  release is at least \<open>(N - 1) / R\<close> seconds after the first (times in milliseconds, so
  the bounds are multiplied out by \<open>R\<close>).
\<close>

theorem acquire_rate_bound:
  assumes "newRateLimiter R = Some rl"
  shows "length (acquires rl clock ps) = length ps
       \<and> (list_all punctual ps \<longrightarrow>
            (\<forall>i. Suc i < length ps \<longrightarrow>
                1000 \<le> (acquires rl clock ps ! Suc i - acquires rl clock ps ! i) * int R)
            \<and> (ps \<noteq> [] \<longrightarrow>
                1000 * int (length ps - 1)
                  \<le> (last (acquires rl clock ps) - hd (acquires rl clock ps)) * int R))"
proof -
  define ts where "ts = acquires rl clock ps"
  from assms have R: "0 < R" and idle: "queue rl = []" "\<not> processing rl"
    and mi: "minInterval rl = (1000 + int R - 1) div int R"
    by (auto simp: newRateLimiter_def split: if_splits)
  have sec: "1000 \<le> minInterval rl * int R"
    using minInterval_covers_second [OF R] mi by simp
  have len: "length ts = length ps"
    using acquires_length [OF idle] by (simp add: ts_def)
  have bound: "(\<forall>i. Suc i < length ps \<longrightarrow> 1000 \<le> (ts ! Suc i - ts ! i) * int R)
      \<and> (ps \<noteq> [] \<longrightarrow> 1000 * int (length ps - 1) \<le> (last ts - hd ts) * int R)"
    if timers: "list_all punctual ps"
  proof -
    have sp: "spaced (minInterval rl) ts"
      using acquires_spaced [OF idle timers, of clock] by (auto simp: ts_def dest: spaced_tail)
    have apart: "1000 \<le> (ts ! Suc i - ts ! i) * int R" if "Suc i < length ps" for i
    proof -
      from that len have "Suc i < length ts" by simp
      from spaced_nth [OF sp this] have "minInterval rl \<le> ts ! Suc i - ts ! i" by simp
      then have "minInterval rl * int R \<le> (ts ! Suc i - ts ! i) * int R"
        by (rule mult_right_mono) simp
      with sec show ?thesis by linarith
    qed
    have span: "1000 * int (length ps - 1) \<le> (last ts - hd ts) * int R" if "ps \<noteq> []"
    proof -
      from that len have "ts \<noteq> []" by auto
      from spaced_span [OF sp this] len
      have "minInterval rl * int (length ps - 1) \<le> last ts - hd ts" by simp
      then have "minInterval rl * int (length ps - 1) * int R \<le> (last ts - hd ts) * int R"
        by (rule mult_right_mono) simp
      moreover have "1000 * int (length ps - 1) \<le> minInterval rl * int R * int (length ps - 1)"
        using sec by (intro mult_right_mono) simp_all
      ultimately show ?thesis
        by (simp add: mult.assoc mult.left_commute mult.commute)
    qed
    from apart span show ?thesis by blast
  qed
  from len bound show ?thesis unfolding ts_def by blast
qed

text \<open>
  The bound at five requests per second: three calls, the caller busy for 50 ms before
  the third and the timer 3 ms late, are released at 1000, 1200 and 1404.
\<close>

theorem acquire_rate_bound_witness:
  "newRateLimiter 5
     = Some \<lparr>minInterval = 200, burstSize = 1, lastRequestTime = 0, queue = [], processing = False\<rparr>
   \<and> list_all punctual
        [\<lparr>gap = 0, late = 0, lag = 0\<rparr>, \<lparr>gap = 0, late = 0, lag = 0\<rparr>, \<lparr>gap = 50, late = 3, lag = 1\<rparr>]
   \<and> acquires \<lparr>minInterval = 200, burstSize = 1, lastRequestTime = 0, queue = [], processing = False\<rparr>
        1000 [\<lparr>gap = 0, late = 0, lag = 0\<rparr>, \<lparr>gap = 0, late = 0, lag = 0\<rparr>, \<lparr>gap = 50, late = 3, lag = 1\<rparr>]
       = [1000, 1200, 1404]
   \<and> (1000::int) * int (3 - 1) \<le> (1404 - 1000) * int 5"
proof -
  let ?rl = "\<lparr>minInterval = 200, burstSize = 1, lastRequestTime = 0, queue = [], processing = False\<rparr>"
  let ?ps = "[\<lparr>gap = 0, late = 0, lag = 0\<rparr>, \<lparr>gap = 0, late = 0, lag = 0\<rparr>, \<lparr>gap = 50, late = 3, lag = 1\<rparr>]"
  have h: "newRateLimiter 5 = Some ?rl"
    by (simp add: newRateLimiter_def)
  have timers: "list_all punctual ?ps"
    by (simp add: punctual_def)
  have run: "acquires ?rl 1000 ?ps = [1000, 1200, 1404]"
    by (simp add: acquire_def process_step_def waitTime_def)
  from acquire_rate_bound [OF h, of 1000 ?ps] timers run
  have "(1000::int) * int (3 - 1) \<le> (1404 - 1000) * int 5" by simp
  with h timers run show ?thesis by simp
qed

text \<open>
  Without that condition the bound fails. At five requests per second, two calls with
  the timer of the second firing one millisecond before its 200 ms have passed on the
  clock of \<open>Date.now()\<close>: the loop stores the time it reads and releases, 199 ms after
  the first release.
\<close>

theorem acquire_released_early_counterexample:
  "newRateLimiter 5
     = Some \<lparr>minInterval = 200, burstSize = 1, lastRequestTime = 0, queue = [], processing = False\<rparr>
   \<and> acquires \<lparr>minInterval = 200, burstSize = 1, lastRequestTime = 0, queue = [], processing = False\<rparr>
        1000 [\<lparr>gap = 0, late = 0, lag = 0\<rparr>, \<lparr>gap = 0, late = - 1, lag = 0\<rparr>]
       = [1000, 1199]
   \<and> \<not> (1000::int) \<le> (1199 - 1000) * int 5
   \<and> \<not> (1000::int) * int (2 - 1) \<le> (1199 - 1000) * int 5"
  by (simp add: newRateLimiter_def acquire_def process_step_def waitTime_def)

section \<open>Properties of the retry executor\<close>

lemma retry_loop_returns:
  assumes "attempt \<le> maxAttempts opts" and "fn attempt = Inr v"
  shows "retry_loop fn opts attempt le calls ds
       = \<lparr>outcome = Inr v, attempts = calls @ [attempt], delays = ds\<rparr>"
  using assms by (subst retry_loop.simps) simp

lemma retry_loop_throws:
  assumes "attempt \<le> maxAttempts opts" and "fn attempt = Inl err"
    and "attempt = maxAttempts opts \<or> \<not> retryOn opts err"
  shows "retry_loop fn opts attempt le calls ds
       = \<lparr>outcome = Inl (Thrown err), attempts = calls @ [attempt], delays = ds\<rparr>"
  using assms by (subst retry_loop.simps) auto

lemma retry_loop_retries:
  assumes "attempt < maxAttempts opts" and "fn attempt = Inl err" and "retryOn opts err"
  shows "retry_loop fn opts attempt le calls ds
       = retry_loop fn opts (Suc attempt) (Thrown err) (calls @ [attempt])
           (ds @ [min (baseDelay opts * factor opts ^ (attempt - 1)) (maxDelay opts)])"
  using assms by (subst retry_loop.simps) simp

lemma retry_loop_exhausted:
  assumes "maxAttempts opts < attempt"
  shows "retry_loop fn opts attempt le calls ds = \<lparr>outcome = Inl le, attempts = calls, delays = ds\<rparr>"
  using assms by (subst retry_loop.simps) simp

text \<open>
  The loop passes over a run of failed attempts that may be retried: from attempt \<open>a\<close>
  it reaches attempt \<open>a + n\<close> with the calls recorded and \<open>n\<close> delays added.
\<close>

lemma retry_loop_skip:
  assumes "a + n \<le> maxAttempts opts"
    and "\<forall>j. a \<le> j \<and> j < a + n \<longrightarrow> (\<exists>e. fn j = Inl e \<and> retryOn opts e)"
  shows "\<exists>le' ds'. length ds' = n
           \<and> retry_loop fn opts a le calls ds
             = retry_loop fn opts (a + n) le' (calls @ [a..<a + n]) (ds @ ds')"
  using assms
proof (induction n arbitrary: a le calls ds)
  case 0
  show ?case by (intro exI [of _ le] exI [of _ "[]"]) simp
next
  case (Suc n)
  from Suc.prems(2) obtain e where e: "fn a = Inl e" "retryOn opts e" by auto
  from Suc.prems(1) have lt: "a < maxAttempts opts" by simp
  let ?d = "min (baseDelay opts * factor opts ^ (a - 1)) (maxDelay opts)"
  have step: "retry_loop fn opts a le calls ds
            = retry_loop fn opts (Suc a) (Thrown e) (calls @ [a]) (ds @ [?d])"
    by (rule retry_loop_retries) (simp_all add: lt e)
  have "Suc a + n \<le> maxAttempts opts" using Suc.prems(1) by simp
  moreover have "\<forall>j. Suc a \<le> j \<and> j < Suc a + n \<longrightarrow> (\<exists>e. fn j = Inl e \<and> retryOn opts e)"
    using Suc.prems(2) by auto
  ultimately obtain le' ds' where len: "length ds' = n"
    and rest: "retry_loop fn opts (Suc a) (Thrown e) (calls @ [a]) (ds @ [?d])
             = retry_loop fn opts (Suc a + n) le' ((calls @ [a]) @ [Suc a..<Suc a + n]) ((ds @ [?d]) @ ds')"
    using Suc.IH [of "Suc a" "Thrown e" "calls @ [a]" "ds @ [?d]"] by blast
  have "[a..<a + Suc n] = a # [Suc a..<Suc a + n]"
    by (simp add: upt_conv_Cons)
  with step rest len show ?case
    by (intro exI [of _ le'] exI [of _ "?d # ds'"]) simp
qed

text \<open>
  C3. With \<open>maxAttempts = 3\<close> and \<open>retryOn\<close> always true: an operation that fails on
  attempts 1 and 2 and succeeds on attempt 3 gives that result, after the calls 1, 2, 3
  and exactly two retries; an operation that fails on all three attempts gives the
  error of the third attempt, after the calls 1, 2, 3. With any options: the first
  error that \<open>retryOn\<close> rejects, at an attempt \<open>k\<close> within \<open>maxAttempts\<close> reached over
  errors that were retried, is thrown as it is, and attempt \<open>k\<close> is the last call.
\<close>

theorem retryWithBackoff_semantics:
  fixes fn :: "nat \<Rightarrow> 'e + 'a"
  shows "(maxAttempts opts = 3 \<and> (\<forall>e. retryOn opts e)
            \<and> fn 1 = Inl e1 \<and> fn 2 = Inl e2 \<and> fn 3 = Inr v
          \<longrightarrow> outcome (retryWithBackoff fn opts) = Inr v
              \<and> attempts (retryWithBackoff fn opts) = [1, 2, 3]
              \<and> length (delays (retryWithBackoff fn opts)) = 2)
       \<and> (maxAttempts opts = 3 \<and> (\<forall>e. retryOn opts e)
            \<and> fn 1 = Inl e1 \<and> fn 2 = Inl e2 \<and> fn 3 = Inl e3
          \<longrightarrow> outcome (retryWithBackoff fn opts) = Inl (Thrown e3)
              \<and> attempts (retryWithBackoff fn opts) = [1, 2, 3]
              \<and> length (delays (retryWithBackoff fn opts)) = 2)
       \<and> (1 \<le> k \<and> k \<le> maxAttempts opts
            \<and> (\<forall>j. 1 \<le> j \<and> j < k \<longrightarrow> (\<exists>e. fn j = Inl e \<and> retryOn opts e))
            \<and> fn k = Inl ek \<and> \<not> retryOn opts ek
          \<longrightarrow> outcome (retryWithBackoff fn opts) = Inl (Thrown ek)
              \<and> attempts (retryWithBackoff fn opts) = [1..<Suc k]
              \<and> length (delays (retryWithBackoff fn opts)) = k - 1)"
proof (intro conjI impI)
  assume h: "maxAttempts opts = 3 \<and> (\<forall>e. retryOn opts e)
    \<and> fn 1 = Inl e1 \<and> fn 2 = Inl e2 \<and> fn 3 = Inr v"
  have "\<exists>e. fn j = Inl e \<and> retryOn opts e" if "1 \<le> j \<and> j < 1 + 2" for j
  proof -
    from that have "j = 1 \<or> j = 2" by arith
    with h show ?thesis by auto
  qed
  then have "\<forall>j. 1 \<le> j \<and> j < 1 + 2 \<longrightarrow> (\<exists>e. fn j = Inl e \<and> retryOn opts e)"
    by blast
  with h obtain le' ds' where len: "length ds' = 2"
    and run: "retry_loop fn opts 1 Undefined [] [] = retry_loop fn opts (1 + 2) le' ([] @ [1..<1 + 2]) ([] @ ds')"
    using retry_loop_skip [of 1 2 opts fn Undefined "[]" "[]"] by auto
  have three: "(1::nat) + 2 = 3" and upt: "[1..<(3::nat)] = [1, 2]"
    by (simp_all add: upt_rec)
  have "retry_loop fn opts 3 le' [1, 2] ds' = \<lparr>outcome = Inr v, attempts = [1, 2] @ [3], delays = ds'\<rparr>"
    using h by (intro retry_loop_returns) simp_all
  with run [unfolded three upt append_Nil]
  have r: "retryWithBackoff fn opts = \<lparr>outcome = Inr v, attempts = [1, 2, 3], delays = ds'\<rparr>"
    unfolding retryWithBackoff_def by simp
  show "outcome (retryWithBackoff fn opts) = Inr v"
    and "attempts (retryWithBackoff fn opts) = [1, 2, 3]"
    and "length (delays (retryWithBackoff fn opts)) = 2"
    using r len by simp_all
next
  assume h: "maxAttempts opts = 3 \<and> (\<forall>e. retryOn opts e)
    \<and> fn 1 = Inl e1 \<and> fn 2 = Inl e2 \<and> fn 3 = Inl e3"
  have "\<exists>e. fn j = Inl e \<and> retryOn opts e" if "1 \<le> j \<and> j < 1 + 2" for j
  proof -
    from that have "j = 1 \<or> j = 2" by arith
    with h show ?thesis by auto
  qed
  then have "\<forall>j. 1 \<le> j \<and> j < 1 + 2 \<longrightarrow> (\<exists>e. fn j = Inl e \<and> retryOn opts e)"
    by blast
  with h obtain le' ds' where len: "length ds' = 2"
    and run: "retry_loop fn opts 1 Undefined [] [] = retry_loop fn opts (1 + 2) le' ([] @ [1..<1 + 2]) ([] @ ds')"
    using retry_loop_skip [of 1 2 opts fn Undefined "[]" "[]"] by auto
  have three: "(1::nat) + 2 = 3" and upt: "[1..<(3::nat)] = [1, 2]"
    by (simp_all add: upt_rec)
  have "retry_loop fn opts 3 le' [1, 2] ds'
      = \<lparr>outcome = Inl (Thrown e3), attempts = [1, 2] @ [3], delays = ds'\<rparr>"
    using h by (intro retry_loop_throws) simp_all
  with run [unfolded three upt append_Nil]
  have r: "retryWithBackoff fn opts
      = \<lparr>outcome = Inl (Thrown e3), attempts = [1, 2, 3], delays = ds'\<rparr>"
    unfolding retryWithBackoff_def by simp
  show "outcome (retryWithBackoff fn opts) = Inl (Thrown e3)"
    and "attempts (retryWithBackoff fn opts) = [1, 2, 3]"
    and "length (delays (retryWithBackoff fn opts)) = 2"
    using r len by simp_all
next
  assume h: "1 \<le> k \<and> k \<le> maxAttempts opts
    \<and> (\<forall>j. 1 \<le> j \<and> j < k \<longrightarrow> (\<exists>e. fn j = Inl e \<and> retryOn opts e))
    \<and> fn k = Inl ek \<and> \<not> retryOn opts ek"
  then have k: "1 + (k - 1) = k" by simp
  from h have "1 + (k - 1) \<le> maxAttempts opts"
    and "\<forall>j. 1 \<le> j \<and> j < 1 + (k - 1) \<longrightarrow> (\<exists>e. fn j = Inl e \<and> retryOn opts e)"
    by simp_all
  then obtain le' ds' where len: "length ds' = k - 1"
    and run: "retry_loop fn opts 1 Undefined [] []
            = retry_loop fn opts (1 + (k - 1)) le' ([] @ [1..<1 + (k - 1)]) ([] @ ds')"
    using retry_loop_skip [of 1 "k - 1" opts fn Undefined "[]" "[]"] by blast
  have "retry_loop fn opts k le' [1..<k] ds'
      = \<lparr>outcome = Inl (Thrown ek), attempts = [1..<k] @ [k], delays = ds'\<rparr>"
    using h by (intro retry_loop_throws) simp_all
  moreover have "[1..<k] @ [k] = [1..<Suc k]" using h by simp
  ultimately have r: "retryWithBackoff fn opts
      = \<lparr>outcome = Inl (Thrown ek), attempts = [1..<Suc k], delays = ds'\<rparr>"
    using run [unfolded k append_Nil] unfolding retryWithBackoff_def by simp
  show "outcome (retryWithBackoff fn opts) = Inl (Thrown ek)"
    and "attempts (retryWithBackoff fn opts) = [1..<Suc k]"
    and "length (delays (retryWithBackoff fn opts)) = k - 1"
    using r len by simp_all
qed

text \<open>
  The three cases at the default delays, the error of an attempt being its number:
  success at the third attempt; three failures; and an error at the second attempt that
  \<open>retryOn\<close> rejects.
\<close>

theorem retryWithBackoff_semantics_witness:
  "retryWithBackoff (\<lambda>k. if k < 3 then Inl k else Inr (42::nat))
       \<lparr>maxAttempts = 3, baseDelay = 1000, maxDelay = 30000, factor = 2, retryOn = (\<lambda>e::nat. True)\<rparr>
     = \<lparr>outcome = Inr 42, attempts = [1, 2, 3], delays = [1000, 2000]\<rparr>
   \<and> retryWithBackoff (\<lambda>k. Inl k :: nat + nat)
       \<lparr>maxAttempts = 3, baseDelay = 1000, maxDelay = 30000, factor = 2, retryOn = (\<lambda>e::nat. True)\<rparr>
     = \<lparr>outcome = Inl (Thrown 3), attempts = [1, 2, 3], delays = [1000, 2000]\<rparr>
   \<and> retryWithBackoff (\<lambda>k. Inl k :: nat + nat)
       \<lparr>maxAttempts = 3, baseDelay = 1000, maxDelay = 30000, factor = 2, retryOn = (\<lambda>e::nat. e \<noteq> 2)\<rparr>
     = \<lparr>outcome = Inl (Thrown 2), attempts = [1, 2], delays = [1000]\<rparr>"
proof -
  let ?always = "\<lparr>maxAttempts = 3, baseDelay = 1000, maxDelay = 30000, factor = 2, retryOn = (\<lambda>e::nat. True)\<rparr>"
  let ?picky = "\<lparr>maxAttempts = 3, baseDelay = 1000, maxDelay = 30000, factor = 2, retryOn = (\<lambda>e::nat. e \<noteq> 2)\<rparr>"
  let ?ok = "\<lambda>k::nat. if k < 3 then Inl k else Inr (42::nat)"
  let ?bad = "\<lambda>k::nat. Inl k :: nat + nat"
  have d1: "delays (retryWithBackoff ?ok ?always) = [1000, 2000]"
    and d2: "delays (retryWithBackoff ?bad ?always) = [1000, 2000]"
    and d3: "delays (retryWithBackoff ?bad ?picky) = [1000]"
    by (simp_all add: retryWithBackoff_def retry_loop.simps)
  have "outcome (retryWithBackoff ?ok ?always) = Inr 42
      \<and> attempts (retryWithBackoff ?ok ?always) = [1, 2, 3]"
    using retryWithBackoff_semantics [where opts = ?always and fn = ?ok and ?e1.0 = 1 and ?e2.0 = 2 and v = 42]
    by simp
  moreover have "outcome (retryWithBackoff ?bad ?always) = Inl (Thrown 3)
      \<and> attempts (retryWithBackoff ?bad ?always) = [1, 2, 3]"
    using retryWithBackoff_semantics [where opts = ?always and fn = ?bad and ?e1.0 = 1 and ?e2.0 = 2 and ?e3.0 = 3]
    by simp
  moreover have "outcome (retryWithBackoff ?bad ?picky) = Inl (Thrown 2)
      \<and> attempts (retryWithBackoff ?bad ?picky) = [1, 2]"
  proof -
    have "\<forall>j. 1 \<le> j \<and> j < (2::nat) \<longrightarrow> (\<exists>e. ?bad j = Inl e \<and> retryOn ?picky e)"
      by auto
    then show ?thesis
      using retryWithBackoff_semantics [where opts = ?picky and fn = ?bad and k = 2 and ek = 2]
      by (simp add: upt_rec)
  qed
  ultimately show ?thesis
    using d1 d2 d3 by (intro conjI retry_run.equality) simp_all
qed


section \<open>Properties of the token lifecycle\<close>

lemma markTokenRevoked_record:
  "\<forall>u \<in> set (verified_users (markTokenRevoked now discordId d)).
     discord_id u = discordId \<longrightarrow> token_revoked u \<and> access_token u = None \<and> refresh_token u = None"
  by (simp add: markTokenRevoked_def del: if_image_distrib)

lemma markTokenRevoked_frame:
  "migration_runs (markTokenRevoked now discordId d) = migration_runs d"
  "migration_user_log (markTokenRevoked now discordId d) = migration_user_log d"
  "audit_log (markTokenRevoked now discordId d) = audit_log d"
  by (simp_all add: markTokenRevoked_def)

lemma updateTokens_frame:
  "migration_runs (updateTokens discordId a r t d) = migration_runs d"
  "migration_user_log (updateTokens discordId a r t d) = migration_user_log d"
  "audit_log (updateTokens discordId a r t d) = audit_log d"
  by (simp_all add: updateTokens_def)

lemma refreshCatch_frame:
  "migration_runs (snd (refreshCatch env user d message)) = migration_runs d"
  "migration_user_log (snd (refreshCatch env user d message)) = migration_user_log d"
  "audit_log (snd (refreshCatch env user d message)) = audit_log d"
  by (simp_all add: refreshCatch_def markTokenRevoked_frame split: option.splits)

lemma ensureFreshToken_frame:
  "migration_runs (store (ensureFreshToken env user d)) = migration_runs d"
  "migration_user_log (store (ensureFreshToken env user d)) = migration_user_log d"
  "audit_log (store (ensureFreshToken env user d)) = audit_log d"
  by (simp_all add: ensureFreshToken_def Let_def refreshCatch_frame updateTokens_frame
      split: sum.splits option.splits)

text \<open>What \<open>refreshToken\<close> sends: nothing when \<open>decrypt\<close> throws, else one request.\<close>

lemma refreshToken_requests:
  "snd (refreshToken env encrypted)
     = (case decrypt env encrypted of Inl e \<Rightarrow> [] | Inr plain \<Rightarrow> [plain])"
  by (simp add: refreshToken_def request_token_endpoint_def split: sum.splits)

lemma refreshCatch_throws: "\<exists>m. fst (refreshCatch env user d message) = Inl m"
  by (simp add: refreshCatch_def split: option.splits)

text \<open>
  C4, with what it needs of the stored refresh token. A principal whose stored expiry
  is more than \<open>TOKEN_REFRESH_BUFFER_SECONDS\<close> (3600 s) after the time of the call:
  \<open>ensureFreshToken\<close> sends no request to the token endpoint, leaves the store as it is
  and returns what \<open>decrypt\<close> gives for the stored access token. A principal whose
  expiry is within the buffer or past: when the stored refresh token decrypts, exactly
  one request is sent, with the decrypted token, and when the endpoint answers it with
  200 and \<open>updateTokens\<close> does not throw, the access token of the answer is returned and
  the store holds the new tokens, encrypted, and the new expiry; when \<open>decrypt\<close> throws,
  no request is sent and the call throws.
\<close>

theorem ensureFreshToken_refresh_buffer:
  "TOKEN_REFRESH_BUFFER_SECONDS = 3600
   \<and> (token_expires_at user = Some t
        \<and> t - date_now env (discord_id user) > TOKEN_REFRESH_BUFFER_SECONDS * 1000
      \<longrightarrow> ensureFreshToken env user d
            = \<lparr>token = decrypt env (access_token user), store = d, requests = []\<rparr>)
   \<and> (token_expires_at user = Some t
        \<and> t - date_now env (discord_id user) \<le> TOKEN_REFRESH_BUFFER_SECONDS * 1000
      \<longrightarrow> (\<forall>plain. decrypt env (refresh_token user) = Inr plain
              \<longrightarrow> requests (ensureFreshToken env user d) = [plain])
          \<and> (\<forall>plain reply.
                decrypt env (refresh_token user) = Inr plain
                \<and> token_endpoint env plain = Inr reply \<and> statusCode reply = 200
                \<and> throws env (UpdateTokens (discord_id user)) = None
              \<longrightarrow> token (ensureFreshToken env user d) = Inr (r_access_token reply)
                  \<and> store (ensureFreshToken env user d)
                      = updateTokens (discord_id user) (encrypt env (r_access_token reply))
                          (encrypt env (r_refresh_token reply))
                          (date_refreshed env (discord_id user) + r_expires_in reply * 1000) d)
          \<and> (\<forall>e. decrypt env (refresh_token user) = Inl e
              \<longrightarrow> requests (ensureFreshToken env user d) = []
                  \<and> (\<exists>m. token (ensureFreshToken env user d) = Inl m)))"
proof -
  have fresh: "ensureFreshToken env user d
      = \<lparr>token = decrypt env (access_token user), store = d, requests = []\<rparr>"
    if "token_expires_at user = Some t"
      and "t - date_now env (discord_id user) > TOKEN_REFRESH_BUFFER_SECONDS * 1000"
    using that by (simp add: ensureFreshToken_def Let_def)
  have sent: "requests (ensureFreshToken env user d) = snd (refreshToken env (refresh_token user))"
    if "token_expires_at user = Some t"
      and "t - date_now env (discord_id user) \<le> TOKEN_REFRESH_BUFFER_SECONDS * 1000"
    using that by (simp add: ensureFreshToken_def Let_def split: sum.splits option.splits)
  have stored: "token (ensureFreshToken env user d) = Inr (r_access_token reply)
      \<and> store (ensureFreshToken env user d)
          = updateTokens (discord_id user) (encrypt env (r_access_token reply))
              (encrypt env (r_refresh_token reply))
              (date_refreshed env (discord_id user) + r_expires_in reply * 1000) d"
    if "token_expires_at user = Some t"
      and "t - date_now env (discord_id user) \<le> TOKEN_REFRESH_BUFFER_SECONDS * 1000"
      and "decrypt env (refresh_token user) = Inr plain"
      and "token_endpoint env plain = Inr reply" and "statusCode reply = 200"
      and "throws env (UpdateTokens (discord_id user)) = None"
    for plain reply
    using that by (simp add: ensureFreshToken_def refreshToken_def request_token_endpoint_def Let_def)
  have thrown: "\<exists>m. token (ensureFreshToken env user d) = Inl m"
    if "token_expires_at user = Some t"
      and "t - date_now env (discord_id user) \<le> TOKEN_REFRESH_BUFFER_SECONDS * 1000"
      and "decrypt env (refresh_token user) = Inl e"
    for e
    using that refreshCatch_throws [of env user d e]
    by (simp add: ensureFreshToken_def refreshToken_def request_token_endpoint_def Let_def)
  from fresh sent stored thrown show ?thesis
    by (simp add: TOKEN_REFRESH_BUFFER_SECONDS_def refreshToken_requests)
qed

text \<open>
  \<open>A\<close>, whose tokens expire in a week, gets its stored token decrypted and nothing is
  sent; for \<open>E\<close>, whose tokens expire in ten minutes, one request is sent, and its
  answer is returned and stored.
\<close>

theorem ensureFreshToken_refresh_buffer_witness:
  "ensureFreshToken example_env user_A expiring_store
     = \<lparr>token = Inr (Some ''access-A''), store = expiring_store, requests = []\<rparr>
   \<and> requests (ensureFreshToken refreshed_env user_E expiring_store) = [Some ''refresh-E'']
   \<and> token (ensureFreshToken refreshed_env user_E expiring_store) = Inr (Some ''access-E2'')
   \<and> verified_users (store (ensureFreshToken refreshed_env user_E expiring_store))
       = [user_A, user_E\<lparr>access_token := Some ''enc:access-E2'',
                          refresh_token := Some ''enc:refresh-E2'',
                          token_expires_at := Some 1700604800500\<rparr>]"
proof -
  have "ensureFreshToken example_env user_A expiring_store
      = \<lparr>token = decrypt example_env (access_token user_A), store = expiring_store,
         requests = []\<rparr>"
    using ensureFreshToken_refresh_buffer
      [where user = user_A and t = 1700604800000 and env = example_env and d = expiring_store]
    by (simp add: user_A_def example_env_def TOKEN_REFRESH_BUFFER_SECONDS_def)
  moreover have "decrypt example_env (access_token user_A) = Inr (Some ''access-A'')"
    by (simp add: decrypt_def falsy_def user_A_def example_env_def)
  moreover have plain: "decrypt refreshed_env (refresh_token user_E) = Inr (Some ''refresh-E'')"
    by (simp add: decrypt_def falsy_def user_E_def refreshed_env_def example_env_def)
  have "requests (ensureFreshToken refreshed_env user_E expiring_store) = [Some ''refresh-E'']
      \<and> token (ensureFreshToken refreshed_env user_E expiring_store) = Inr (Some ''access-E2'')
      \<and> store (ensureFreshToken refreshed_env user_E expiring_store)
          = updateTokens ''1005'' (encrypt refreshed_env (Some ''access-E2''))
              (encrypt refreshed_env (Some ''refresh-E2'')) (1700000000500 + 604800 * 1000)
              expiring_store"
    using ensureFreshToken_refresh_buffer
      [where user = user_E and t = 1700000600000 and env = refreshed_env and d = expiring_store]
      plain
    by (simp add: user_E_def refreshed_env_def example_env_def TOKEN_REFRESH_BUFFER_SECONDS_def)
  moreover have "verified_users
        (updateTokens ''1005'' (encrypt refreshed_env (Some ''access-E2''))
           (encrypt refreshed_env (Some ''refresh-E2'')) (1700000000500 + 604800 * 1000)
           expiring_store)
      = [user_A, user_E\<lparr>access_token := Some ''enc:access-E2'',
                          refresh_token := Some ''enc:refresh-E2'',
                          token_expires_at := Some 1700604800500\<rparr>]"
    by (simp add: updateTokens_def encrypt_def falsy_def expiring_store_def user_A_def
        user_E_def refreshed_env_def example_env_def)
  ultimately show ?thesis by simp
qed

text \<open>
  A principal within the buffer for whom no request is sent: the tokens of \<open>E\<close> expire
  in ten minutes and its stored refresh token cannot be decrypted. \<open>decrypt\<close> throws
  inside \<open>refreshToken\<close>, before the request; the error is caught and thrown again.
\<close>

theorem ensureFreshToken_no_request_counterexample:
  "token_expires_at user_E = Some 1700000600000
   \<and> 1700000600000 - date_now undecipherable_env (discord_id user_E)
       \<le> TOKEN_REFRESH_BUFFER_SECONDS * 1000
   \<and> requests (ensureFreshToken undecipherable_env user_E expiring_store) = []
   \<and> token (ensureFreshToken undecipherable_env user_E expiring_store)
       = Inl ''Unsupported state or unable to authenticate data''
   \<and> store (ensureFreshToken undecipherable_env user_E expiring_store) = expiring_store"
  by (simp add: ensureFreshToken_def refreshToken_def request_token_endpoint_def refreshCatch_def decrypt_def falsy_def
      str_includes_def Let_def TOKEN_REFRESH_BUFFER_SECONDS_def user_E_def
      undecipherable_env_def refreshed_env_def example_env_def)

text \<open>
  The message of a failed refresh exchange that got a reply: the reply's
  \<open>error_description\<close> when it has one, else its \<open>error\<close>.
\<close>

lemma refreshToken_message:
  assumes "decrypt env encrypted = Inr plain" and "token_endpoint env plain = Inr reply"
    and "statusCode reply \<noteq> 200"
  shows "fst (refreshToken env encrypted)
       = Inl (''Token refresh failed: ''
              @ template (js_or (r_error_description reply) (r_error reply)))"
  using assms by (simp add: refreshToken_def request_token_endpoint_def)

text \<open>
  What the \<open>catch\<close> block does with an error of the refresh exchange, for a principal
  whose token is not fresh. It looks for \<open>invalid_grant\<close> and \<open>revoked\<close> in the message
  of the error. When one is there and \<open>markTokenRevoked\<close> does not throw: the call
  throws \<open>TOKEN_REVOKED\<close> and the store is the old one after \<open>markTokenRevoked\<close>, in which
  the principal's record is revoked with both tokens cleared and every other record is
  one of the old store. When neither is there: the call throws the error as it is and
  the store is unchanged.
\<close>

lemma ensureFreshToken_catch:
  assumes "\<not> (case token_expires_at user of None \<Rightarrow> 0 | Some t \<Rightarrow> t)
               - date_now env (discord_id user) > TOKEN_REFRESH_BUFFER_SECONDS * 1000"
    and "fst (refreshToken env (refresh_token user)) = Inl message"
  shows "(if str_includes message ''invalid_grant'' \<or> str_includes message ''revoked''
          then throws env (MarkTokenRevoked (discord_id user)) = None
               \<longrightarrow> token (ensureFreshToken env user d) = Inl ''TOKEN_REVOKED''
                 \<and> store (ensureFreshToken env user d)
                     = markTokenRevoked (sql_now env) (discord_id user) d
                 \<and> list_all (\<lambda>u. if discord_id u = discord_id user
                                  then token_revoked u \<and> access_token u = None
                                       \<and> refresh_token u = None
                                  else u \<in> set (verified_users d))
                      (verified_users (store (ensureFreshToken env user d)))
          else token (ensureFreshToken env user d) = Inl message
             \<and> store (ensureFreshToken env user d) = d)"
proof -
  have rec: "list_all (\<lambda>u. if discord_id u = discord_id user
                              then token_revoked u \<and> access_token u = None \<and> refresh_token u = None
                              else u \<in> set (verified_users d))
                  (verified_users (markTokenRevoked (sql_now env) (discord_id user) d))"
    by (simp add: markTokenRevoked_def list_all_iff del: if_image_distrib)
  from assms rec show ?thesis
    by (simp add: ensureFreshToken_def refreshCatch_def Let_def)
qed

text \<open>
  C5 at a failing input. The tokens of \<open>E\<close> expire in ten minutes and the token
  endpoint rejects the grant: it answers 400 with the error \<open>invalid_grant\<close> and the
  description \<open>Invalid refresh token\<close>. \<open>refreshToken\<close> builds its message from the
  description, so the message does not hold the error code and the \<open>catch\<close> block does
  not find it: the error is thrown as it is, \<open>E\<close> is not marked revoked and keeps both
  stored tokens. The other way round, a request that fails on the server's certificate
  with the message \<open>certificate revoked\<close>, which says nothing about the grant, has \<open>E\<close>
  marked revoked and its tokens cleared.
\<close>

theorem rejected_grant_is_not_revoked:
  "token_endpoint described_grant_env (Some ''refresh-E'')
     = Inr \<lparr>statusCode = 400, r_error = Some ''invalid_grant'',
            r_error_description = Some ''Invalid refresh token'', r_access_token = None,
            r_refresh_token = None, r_expires_in = 0\<rparr>
   \<and> requests (ensureFreshToken described_grant_env user_E expiring_store) = [Some ''refresh-E'']
   \<and> token (ensureFreshToken described_grant_env user_E expiring_store)
       = Inl ''Token refresh failed: Invalid refresh token''
   \<and> store (ensureFreshToken described_grant_env user_E expiring_store) = expiring_store
   \<and> user_E \<in> set (verified_users expiring_store)
   \<and> \<not> token_revoked user_E \<and> access_token user_E = Some ''enc:access-E''
   \<and> refresh_token user_E = Some ''enc:refresh-E''
   \<and> token_endpoint revoked_certificate_env (Some ''refresh-E'') = Inl ''certificate revoked''
   \<and> token (ensureFreshToken revoked_certificate_env user_E expiring_store) = Inl ''TOKEN_REVOKED''
   \<and> verified_users (store (ensureFreshToken revoked_certificate_env user_E expiring_store))
       = [user_A, user_E\<lparr>token_revoked := True, revoked_at := Some 1700000000000,
                          access_token := None, refresh_token := None\<rparr>]"
  by (simp add: ensureFreshToken_def refreshToken_def request_token_endpoint_def refreshCatch_def decrypt_def falsy_def
      js_or_def template_def str_includes_def markTokenRevoked_def Let_def
      TOKEN_REFRESH_BUFFER_SECONDS_def user_A_def user_E_def expiring_store_def
      described_grant_env_def revoked_certificate_env_def example_env_def)

section \<open>Properties of the loop\<close>

lemma retry_loop_result:
  "outcome (retry_loop fn opts a le calls ds) = Inr v \<Longrightarrow> \<exists>k. fn k = Inr v"
proof (induction fn opts a le calls ds rule: retry_loop.induct)
  case (1 fn opts attempt lastError calls ds)
  show ?case
  proof (cases "attempt \<le> maxAttempts opts")
    case False
    with "1.prems" show ?thesis by (simp add: retry_loop_exhausted)
  next
    case le: True
    show ?thesis
    proof (cases "fn attempt")
      case (Inr w)
      with le "1.prems" show ?thesis by (auto simp: retry_loop_returns)
    next
      case (Inl err)
      show ?thesis
      proof (cases "attempt = maxAttempts opts \<or> \<not> retryOn opts err")
        case True
        with le Inl "1.prems" show ?thesis by (simp add: retry_loop_throws)
      next
        case False
        with le Inl have lt: "attempt < maxAttempts opts" and r: "retryOn opts err" by auto
        from "1.prems" have "outcome (retry_loop fn opts (attempt + 1) (Thrown err) (calls @ [attempt])
            (ds @ [min (baseDelay opts * factor opts ^ (attempt - 1)) (maxDelay opts)])) = Inr v"
          by (simp add: retry_loop_retries [where fn = fn and attempt = attempt, OF lt Inl r])
        with "1.IH" [OF le Inl False] show ?thesis by blast
      qed
    qed
  qed
qed

lemma retry_loop_defined:
  "attempt \<le> maxAttempts opts \<Longrightarrow> outcome (retry_loop fn opts attempt le calls ds) \<noteq> Inl Undefined"
proof (induction fn opts attempt le calls ds rule: retry_loop.induct)
  case (1 fn opts attempt lastError calls ds)
  show ?case
  proof (cases "fn attempt")
    case (Inr w)
    with "1.prems" show ?thesis by (simp add: retry_loop_returns)
  next
    case (Inl err)
    show ?thesis
    proof (cases "attempt = maxAttempts opts \<or> \<not> retryOn opts err")
      case True
      with Inl "1.prems" show ?thesis by (simp add: retry_loop_throws)
    next
      case False
      with "1.prems" have lt: "attempt < maxAttempts opts" and r: "retryOn opts err" by auto
      from lt have "attempt + 1 \<le> maxAttempts opts" by simp
      from "1.IH" [OF "1.prems" Inl False this] show ?thesis
        by (simp add: retry_loop_retries [where fn = fn and attempt = attempt, OF lt Inl r])
    qed
  qed
qed

lemma joinAttempt_status:
  assumes "joinAttempt env g u t k = Inr jr"
  shows "j_status jr = ''added'' \<or> j_status jr = ''already_in_server'' \<or> j_status jr = ''failed''"
proof -
  from assms obtain r where a: "addUserToGuild env g u t k = Inr r"
    and jr: "jr = r" and nr: "j_status r \<noteq> ''rate_limited''"
    by (auto simp: joinAttempt_def split: sum.splits if_splits)
  from a have "j_status r = ''added'' \<or> j_status r = ''already_in_server''
      \<or> j_status r = ''failed'' \<or> j_status r = ''rate_limited''"
    by (auto simp: addUserToGuild_def split: sum.splits if_splits)
  with nr jr show ?thesis by blast
qed

lemma logMigrationUser_frame:
  "verified_users (logMigrationUser now rid u st e d) = verified_users d"
  "migration_runs (logMigrationUser now rid u st e d) = migration_runs d"
  "audit_log (logMigrationUser now rid u st e d) = audit_log d"
  "migration_user_log (logMigrationUser now rid u st e d)
     = migration_user_log d @ [\<lparr>migration_run_id = rid, log_discord_id = u, log_status = st,
         log_error_message = e, attempted_at = now\<rparr>]"
  by (simp_all add: logMigrationUser_def)

lemma processSingleUser_frame:
  assumes "processSingleUser cfg env user g rid d = (res, d')"
  shows "migration_runs d' = migration_runs d" and "audit_log d' = audit_log d"
  using assms
  by (auto simp: processSingleUser_def Let_def logMigrationUser_frame ensureFreshToken_frame
      split: if_splits sum.splits)

lemma status_distinct:
  "ADDED \<noteq> TOKEN_REVOKED" "ALREADY_IN \<noteq> TOKEN_REVOKED" "FAILED \<noteq> TOKEN_REVOKED"
  "SKIPPED_MANUAL \<noteq> TOKEN_REVOKED" "REFRESH_FAILED \<noteq> TOKEN_REVOKED"
  "ADDED \<noteq> REFRESH_FAILED" "ALREADY_IN \<noteq> REFRESH_FAILED" "FAILED \<noteq> REFRESH_FAILED"
  "SKIPPED_MANUAL \<noteq> REFRESH_FAILED"
  by (simp_all add: ADDED_def ALREADY_IN_def FAILED_def SKIPPED_MANUAL_def TOKEN_REVOKED_def
      REFRESH_FAILED_def)

text \<open>
  What \<open>processSingleUser\<close> does to the item log: it returns a status and has appended
  one row with that status for the user, or it throws and has appended nothing. The row
  of the check for an earlier revocation is written for a revoked user only.
\<close>

lemma processSingleUser_effect:
  assumes "processSingleUser cfg env user g rid d = (res, d')"
  obtains (logged) result detail where "res = Inr result"
      and "migration_user_log d' = migration_user_log d @
            [\<lparr>migration_run_id = rid, log_discord_id = discord_id user, log_status = result,
              log_error_message = detail, attempted_at = sql_now env\<rparr>]"
      and "result = TOKEN_REVOKED \<and> detail = Some ''Token previously revoked'' \<longrightarrow> token_revoked user"
    | (thrown) t where "res = Inl t" and "migration_user_log d' = migration_user_log d"
proof (cases "manually_verified user \<and> falsy (access_token user)")
  case True
  with assms have "res = Inr SKIPPED_MANUAL"
    and "migration_user_log d' = migration_user_log d @
            [\<lparr>migration_run_id = rid, log_discord_id = discord_id user, log_status = SKIPPED_MANUAL,
              log_error_message = Some ''No OAuth tokens - manually verified only'',
              attempted_at = sql_now env\<rparr>]"
    by (auto simp: processSingleUser_def logMigrationUser_frame)
  then show thesis by (rule logged) (simp add: status_distinct)
next
  case manual: False
  show thesis
  proof (cases "token_revoked user")
    case True
    with manual assms have "res = Inr TOKEN_REVOKED"
      and "migration_user_log d' = migration_user_log d @
            [\<lparr>migration_run_id = rid, log_discord_id = discord_id user, log_status = TOKEN_REVOKED,
              log_error_message = Some ''Token previously revoked'',
              attempted_at = sql_now env\<rparr>]"
      by (auto simp: processSingleUser_def logMigrationUser_frame)
    then show thesis by (rule logged) (simp add: True)
  next
    case live: False
    let ?fresh = "ensureFreshToken env user d"
    note frame = ensureFreshToken_frame [of env user d]
    show thesis
    proof (cases "token ?fresh")
      case (Inl message)
      show thesis
      proof (cases "message = ''TOKEN_REVOKED''")
        case True
        with manual live Inl assms have "res = Inr TOKEN_REVOKED"
          and "migration_user_log d' = migration_user_log d @
            [\<lparr>migration_run_id = rid, log_discord_id = discord_id user, log_status = TOKEN_REVOKED,
              log_error_message = Some ''Token revoked during refresh'',
              attempted_at = sql_now env\<rparr>]"
          by (auto simp: processSingleUser_def Let_def logMigrationUser_frame frame)
        then show thesis by (rule logged) simp
      next
        case False
        with manual live Inl assms have "res = Inr REFRESH_FAILED"
          and "migration_user_log d' = migration_user_log d @
            [\<lparr>migration_run_id = rid, log_discord_id = discord_id user, log_status = REFRESH_FAILED,
              log_error_message = Some message, attempted_at = sql_now env\<rparr>]"
          by (auto simp: processSingleUser_def Let_def logMigrationUser_frame frame)
        then show thesis by (rule logged) (simp add: status_distinct)
      qed
    next
      case (Inr accessTok)
      let ?run = "retryWithBackoff (joinAttempt env g (discord_id user) accessTok) (joinOptions cfg)"
      show thesis
      proof (cases "outcome ?run")
        case (Inl err)
        with manual live Inr assms have "res = Inl err"
          and "migration_user_log d' = migration_user_log d"
          by (auto simp: processSingleUser_def Let_def frame)
        then show thesis by (rule thrown)
      next
        case (Inr result)
        then obtain k where "joinAttempt env g (discord_id user) accessTok k = Inr result"
          unfolding retryWithBackoff_def by (blast dest: retry_loop_result)
        from joinAttempt_status [OF this] have st: "j_status result \<noteq> TOKEN_REVOKED"
          by (auto simp: TOKEN_REVOKED_def)
        from manual live \<open>token ?fresh = Inr accessTok\<close> Inr assms
        have "res = Inr (j_status result)"
          and "migration_user_log d' = migration_user_log d @
            [\<lparr>migration_run_id = rid, log_discord_id = discord_id user,
              log_status = j_status result, log_error_message = js_or (j_error result) None,
              attempted_at = sql_now env\<rparr>]"
          by (auto simp: processSingleUser_def Let_def logMigrationUser_frame frame)
        then show thesis by (rule logged) (simp add: st)
      qed
    qed
  qed
qed

text \<open>One turn of the loop: a status was returned, an error was caught, or the handler failed.\<close>

lemma processUser_cases:
  obtains (logged) result detail d' where
      "processUser cfg env g rid user p
         = Inr (p\<lparr>db := d', cnt := tally result (cnt p), processed := Suc (processed p),
                 failedUsers := (if counted_failed result
                                 then failedUsers p @ [discord_id user] else failedUsers p)\<rparr>)"
      and "migration_user_log d' = migration_user_log (db p) @
            [\<lparr>migration_run_id = rid, log_discord_id = discord_id user, log_status = result,
              log_error_message = detail, attempted_at = sql_now env\<rparr>]"
      and "result = TOKEN_REVOKED \<and> detail = Some ''Token previously revoked'' \<longrightarrow> token_revoked user"
      and "migration_runs d' = migration_runs (db p)" and "audit_log d' = audit_log (db p)"
    | (caught) message d' where
      "processSingleUser cfg env user g rid (db p) = (Inl (Thrown message), d')"
      and "processUser cfg env g rid user p
         = Inr (p\<lparr>db := d', cnt := (cnt p)\<lparr>failed := failed (cnt p) + 1\<rparr>,
                 processed := Suc (processed p),
                 failedUsers := failedUsers p @ [discord_id user]\<rparr>)"
      and "migration_user_log d' = migration_user_log (db p)"
      and "migration_runs d' = migration_runs (db p)" and "audit_log d' = audit_log (db p)"
    | (aborted) d' where
      "processSingleUser cfg env user g rid (db p) = (Inl Undefined, d')"
      and "processUser cfg env g rid user p
         = Inl (''Cannot read properties of undefined (reading 'message')'', d')"
      and "migration_user_log d' = migration_user_log (db p)"
      and "migration_runs d' = migration_runs (db p)" and "audit_log d' = audit_log (db p)"
proof -
  obtain res d' where s: "processSingleUser cfg env user g rid (db p) = (res, d')"
    by (cases "processSingleUser cfg env user g rid (db p)")
  note frame = processSingleUser_frame [OF s]
  from s show thesis
  proof (cases rule: processSingleUser_effect)
    case (logged result detail)
    with s frame show thesis
      by (intro that(1) [of result d' detail]) (simp_all add: processUser_def)
  next
    case (thrown t)
    show thesis
    proof (cases t)
      case Undefined
      with thrown s frame show thesis
        by (intro that(3) [of d']) (simp_all add: processUser_def)
    next
      case (Thrown message)
      with thrown s frame show thesis
        by (intro that(2) [of message d']) (simp_all add: processUser_def)
    qed
  qed
qed

text \<open>
  The loop over a list of users: it appends rows of the run, for users of the list in
  the order of the list and at most one for each, and changes neither the runs nor the
  audit log.
\<close>

lemma processUsers_log:
  "\<exists>rows. migration_user_log (store_after (processUsers cfg env g rid users p))
             = migration_user_log (db p) @ rows
     \<and> migration_runs (store_after (processUsers cfg env g rid users p)) = migration_runs (db p)
     \<and> audit_log (store_after (processUsers cfg env g rid users p)) = audit_log (db p)
     \<and> list_all (\<lambda>row. migration_run_id row = rid) rows
     \<and> subseq (map log_discord_id rows) (map discord_id users)
     \<and> (list_ex precheck_row rows \<longrightarrow> list_ex token_revoked users)"
proof (induction users arbitrary: p)
  case Nil
  show ?case by (simp add: store_after_def)
next
  case (Cons user users)
  show ?case
  proof (cases rule: processUser_cases [of cfg env g rid user p])
    case (logged result detail d')
    let ?p' = "p\<lparr>db := d', cnt := tally result (cnt p), processed := Suc (processed p),
                 failedUsers := (if counted_failed result
                                 then failedUsers p @ [discord_id user] else failedUsers p)\<rparr>"
    let ?row = "\<lparr>migration_run_id = rid, log_discord_id = discord_id user, log_status = result,
              log_error_message = detail, attempted_at = sql_now env\<rparr>"
    from Cons.IH [of ?p'] obtain rows where
      ih: "migration_user_log (store_after (processUsers cfg env g rid users ?p'))
             = migration_user_log (db ?p') @ rows"
        "migration_runs (store_after (processUsers cfg env g rid users ?p')) = migration_runs (db ?p')"
        "audit_log (store_after (processUsers cfg env g rid users ?p')) = audit_log (db ?p')"
        "list_all (\<lambda>row. migration_run_id row = rid) rows"
        "subseq (map log_discord_id rows) (map discord_id users)"
        "list_ex precheck_row rows \<longrightarrow> list_ex token_revoked users"
      by blast
    have step: "processUsers cfg env g rid (user # users) p = processUsers cfg env g rid users ?p'"
      using logged(1) by simp
    have pre: "precheck_row ?row \<longrightarrow> token_revoked user"
      using logged(3) by (simp add: precheck_row_def)
    show ?thesis
      unfolding step
      using ih logged(2,4,5) pre
      by (intro exI [of _ "?row # rows"]) auto
  next
    case (caught message d')
    let ?p' = "p\<lparr>db := d', cnt := (cnt p)\<lparr>failed := failed (cnt p) + 1\<rparr>,
                 processed := Suc (processed p),
                 failedUsers := failedUsers p @ [discord_id user]\<rparr>"
    from Cons.IH [of ?p'] obtain rows where
      ih: "migration_user_log (store_after (processUsers cfg env g rid users ?p'))
             = migration_user_log (db ?p') @ rows"
        "migration_runs (store_after (processUsers cfg env g rid users ?p')) = migration_runs (db ?p')"
        "audit_log (store_after (processUsers cfg env g rid users ?p')) = audit_log (db ?p')"
        "list_all (\<lambda>row. migration_run_id row = rid) rows"
        "subseq (map log_discord_id rows) (map discord_id users)"
        "list_ex precheck_row rows \<longrightarrow> list_ex token_revoked users"
      by blast
    have step: "processUsers cfg env g rid (user # users) p = processUsers cfg env g rid users ?p'"
      using caught(2) by simp
    show ?thesis
      unfolding step
      using ih caught(3,4,5)
      by (intro exI [of _ rows]) auto
  next
    case (aborted d')
    have step: "processUsers cfg env g rid (user # users) p
        = Inl (''Cannot read properties of undefined (reading 'message')'', d')"
      using aborted(2) by simp
    show ?thesis
      unfolding step using aborted(3,4,5)
      by (intro exI [of _ "[]"]) (simp add: store_after_def)
  qed
qed

section \<open>Properties of a call of executeMigration\<close>

lemma getAllVerifiedUsers_live: "list_all (\<lambda>u. \<not> token_revoked u) (getAllVerifiedUsers d)"
  by (simp add: getAllVerifiedUsers_def list_all_iff)

lemma getAllVerifiedUsers_subset: "set (getAllVerifiedUsers d) \<subseteq> set (verified_users d)"
  by (auto simp: getAllVerifiedUsers_def)

lemma resolveRun_result:
  "(\<exists>e. resolveRun env g d = Inl e)
   \<or> (resolveRun env g d = Inr (None, []) \<and> getIncompleteMigrationRun g d = None)
   \<or> (\<exists>run. resolveRun env g d = Inr (Some run, getProcessedUsersForRun (run_id run) d)
          \<and> getIncompleteMigrationRun g d = Some run)"
  by (simp add: resolveRun_def split: option.splits)

lemma resolveRun_cases:
  obtains (refused) e where "resolveRun env g d = Inl e"
    | (new) "resolveRun env g d = Inr (None, [])" and "getIncompleteMigrationRun g d = None"
    | (resumed) run where
        "resolveRun env g d = Inr (Some run, getProcessedUsersForRun (run_id run) d)"
        and "getIncompleteMigrationRun g d = Some run"
  using resolveRun_result [of env g d]
  apply (elim disjE exE conjE)
    apply (erule refused)
   apply (erule new, assumption)
  apply (erule resumed, assumption)
  done

lemma announceStart_effect:
  assumes "announceStart env g author prep d = (res, d1)"
  shows "migration_user_log d1 = migration_user_log d \<and> verified_users d1 = verified_users d
       \<and> migration_runs d1 = migration_runs d \<and> (\<forall>prep'. res = Inr prep' \<longrightarrow> prep' = prep)"
  using assms
  by (auto simp: announceStart_def writeAuditLog_def Let_def split: option.splits)

text \<open>The run a new pass creates.\<close>

lemma createMigrationRun_effect:
  assumes "createMigrationRun now g author n d = (r, d1)"
  shows "migration_runs d1 = migration_runs d @ [r]" and "status r = ''running''"
    and "error_message r = None" and "run_id r = next_run_id d"
    and "migration_user_log d1 = migration_user_log d" and "verified_users d1 = verified_users d"
  using assms by (auto simp: createMigrationRun_def Let_def)

lemma prepareRun_effect:
  assumes "prepareRun env g author resolved d = (res, d1)"
  shows "migration_user_log d1 = migration_user_log d" and "verified_users d1 = verified_users d"
    and "migration_runs d1 = migration_runs d
       \<or> (fst resolved = None
          \<and> migration_runs d1 = migration_runs d
               @ [fst (createMigrationRun (sql_now env) g author (length (getAllVerifiedUsers d)) d)])"
proof -
  let ?users = "getAllVerifiedUsers d"
  let ?created = "createMigrationRun (sql_now env) g author (length ?users) d"
  have c: "migration_runs (snd ?created) = migration_runs d @ [fst ?created]"
    "migration_user_log (snd ?created) = migration_user_log d"
    "verified_users (snd ?created) = verified_users d"
    by (simp_all add: createMigrationRun_def Let_def)
  from assms
  have "migration_user_log d1 = migration_user_log d \<and> verified_users d1 = verified_users d
      \<and> (migration_runs d1 = migration_runs d
          \<or> (fst resolved = None \<and> migration_runs d1 = migration_runs d @ [fst ?created]))"
    by (auto simp: prepareRun_def Let_def c dest!: announceStart_effect
        split: option.splits if_splits)
  then show "migration_user_log d1 = migration_user_log d" and "verified_users d1 = verified_users d"
    and "migration_runs d1 = migration_runs d
       \<or> (fst resolved = None \<and> migration_runs d1 = migration_runs d @ [fst ?created])"
    by simp_all
qed

lemma prepareRun_prepared:
  assumes "prepareRun env g author resolved d = (Inr prep, d1)"
  shows "alreadyProcessed prep = snd resolved" and "allUsers prep = getAllVerifiedUsers d"
    and "usersToProcess prep
       = (if 0 < length (snd resolved)
          then filter (\<lambda>u. \<not> has (snd resolved) (discord_id u)) (getAllVerifiedUsers d)
          else getAllVerifiedUsers d)"
    and "migrationRun prep
       = (case fst resolved of
            Some run \<Rightarrow> run
          | None \<Rightarrow> fst (createMigrationRun (sql_now env) g author (length (getAllVerifiedUsers d)) d))"
    and "getAllVerifiedUsers d \<noteq> []"
proof -
  define users where "users = getAllVerifiedUsers d"
  define todo where "todo = (if 0 < length (snd resolved)
          then filter (\<lambda>u. \<not> has (snd resolved) (discord_id u)) users else users)"
  define created where "created = createMigrationRun (sql_now env) g author (length users) d"
  define run where "run = (case fst resolved of Some r \<Rightarrow> r | None \<Rightarrow> fst created)"
  define start where "start = \<lparr>migrationRun = run, alreadyProcessed = snd resolved,
    allUsers = users, usersToProcess = todo\<rparr>"
  have unfold: "prepareRun env g author resolved d
      = (case throws env GetAllVerifiedUsers of
           Some e \<Rightarrow> (Inl e, d)
         | None \<Rightarrow>
             if users = [] then (Inl ''No verified users found in the database.'', d)
             else (case fst resolved of
                     Some r \<Rightarrow> announceStart env g author start d
                   | None \<Rightarrow>
                       (case throws env CreateMigrationRun of
                          Some e \<Rightarrow> (Inl e, d)
                        | None \<Rightarrow> announceStart env g author start (snd created))))"
    by (simp add: prepareRun_def Let_def users_def todo_def created_def run_def start_def
        split: option.splits)
  from assms have ne: "users \<noteq> []"
    unfolding unfold by (simp split: option.splits if_splits)
  from assms ne obtain d0 where "announceStart env g author start d0 = (Inr prep, d1)"
    unfolding unfold by (simp split: option.splits)
  from announceStart_effect [OF this] have "prep = start" by simp
  then show "alreadyProcessed prep = snd resolved" and "allUsers prep = getAllVerifiedUsers d"
    and "usersToProcess prep
       = (if 0 < length (snd resolved)
          then filter (\<lambda>u. \<not> has (snd resolved) (discord_id u)) (getAllVerifiedUsers d)
          else getAllVerifiedUsers d)"
    and "migrationRun prep
       = (case fst resolved of
            Some run \<Rightarrow> run
          | None \<Rightarrow> fst (createMigrationRun (sql_now env) g author (length (getAllVerifiedUsers d)) d))"
    and "getAllVerifiedUsers d \<noteq> []"
    using ne unfolding start_def todo_def run_def created_def users_def by simp_all
qed

lemma finalizeRun_effect:
  assumes "finalizeRun env g author prep p = (res, d')"
  shows "migration_user_log d' = migration_user_log (db p)"
    and "verified_users d' = verified_users (db p)"
    and "migration_runs d' = migration_runs (db p)
       \<or> migration_runs d'
          = migration_runs (completeMigrationRun (sql_now env) (run_id (migrationRun prep))
              (mergedCounts (alreadyProcessed prep) (cnt p)) (db p))"
  using assms
  by (auto simp: finalizeRun_def Let_def writeAuditLog_def completeMigrationRun_def
      split: option.splits if_splits)


text \<open>
  What a call of \<open>executeMigration\<close> does to the item log: it appends rows, for users that
  \<open>getAllVerifiedUsers\<close> returned at its start, in their order and at most one for each,
  and never the row of the check for an earlier revocation.
\<close>

lemma executeMigration_log:
  assumes "executeMigration cfg env g author d = (res, d')"
  shows "\<exists>rows. migration_user_log d' = migration_user_log d @ rows
           \<and> subseq (map log_discord_id rows) (map discord_id (getAllVerifiedUsers d))
           \<and> \<not> list_ex precheck_row rows"
proof (cases "resolveRun env g d")
  case (Inl e)
  with assms have "d' = d" by (simp add: executeMigration_def)
  then show ?thesis by (intro exI [of _ "[]"]) simp
next
  case (Inr resolved)
  obtain r1 d1 where prep: "prepareRun env g author resolved d = (r1, d1)"
    by (cases "prepareRun env g author resolved d")
  note p1 = prepareRun_effect [OF prep]
  show ?thesis
  proof (cases r1)
    case (Inl e)
    with assms Inr prep have "d' = d1" by (simp add: executeMigration_def)
    with p1(1) show ?thesis by (intro exI [of _ "[]"]) simp
  next
    case r1: (Inr prepd)
    let ?loop = "processUsers cfg env g (run_id (migrationRun prepd)) (usersToProcess prepd)
                   (startPass prepd d1)"
    from prep r1 have todo: "usersToProcess prepd
       = (if 0 < length (snd resolved)
          then filter (\<lambda>u. \<not> has (snd resolved) (discord_id u)) (getAllVerifiedUsers d)
          else getAllVerifiedUsers d)"
      by (simp add: prepareRun_prepared(3))
    have sub: "subseq (map discord_id (usersToProcess prepd)) (map discord_id (getAllVerifiedUsers d))"
      unfolding todo by (simp add: subseq_map)
    have live: "\<not> list_ex token_revoked (usersToProcess prepd)"
      using getAllVerifiedUsers_live [of d] unfolding todo
      by (auto simp: list_all_iff list_ex_iff)
    from processUsers_log [of cfg env g "run_id (migrationRun prepd)" "usersToProcess prepd"
        "startPass prepd d1"]
    obtain rows where rows: "migration_user_log (store_after ?loop) = migration_user_log d1 @ rows"
      and ids: "subseq (map log_discord_id rows) (map discord_id (usersToProcess prepd))"
      and pre: "list_ex precheck_row rows \<longrightarrow> list_ex token_revoked (usersToProcess prepd)"
      by (auto simp: startPass_def)
    have "migration_user_log d' = migration_user_log (store_after ?loop)"
    proof (cases ?loop)
      case (Inl failure)
      with assms Inr prep r1 have "d' = snd failure"
        by (simp add: executeMigration_def split: prod.splits)
      with Inl show ?thesis by (simp add: store_after_def)
    next
      case (Inr p)
      with assms \<open>resolveRun env g d = Inr resolved\<close> prep r1
      have "finalizeRun env g author prepd p = (res, d')"
        by (simp add: executeMigration_def)
      from finalizeRun_effect(1) [OF this] Inr show ?thesis by (simp add: store_after_def)
    qed
    with rows p1(1) have "migration_user_log d' = migration_user_log d @ rows" by simp
    moreover from ids sub have "subseq (map log_discord_id rows) (map discord_id (getAllVerifiedUsers d))"
      by (rule subseq_order.trans)
    moreover from pre live have "\<not> list_ex precheck_row rows" by blast
    ultimately show ?thesis by blast
  qed
qed


section \<open>Evaluation of the examples\<close>

lemmas example_defs =
  target_guild_def owner_def example_config_def user_A_def user_B_def user_C_def user_D_def
  spec_example_store_def resume_store_def example_env_def rate_limited_env_def
  complete_fails_env_def run_counts_def log_entry_def user_E_def expiring_store_def
  invalid_grant_env_def described_grant_env_def revoked_certificate_env_def refreshed_env_def
  undecipherable_env_def

lemmas status_defs =
  ADDED_def ALREADY_IN_def FAILED_def SKIPPED_MANUAL_def TOKEN_REVOKED_def REFRESH_FAILED_def

lemmas engine_defs =
  pull_def executeMigration_def interruptedMigration_def resolveRun_def prepareRun_def
  announceStart_def startPass_def finalizeRun_def mergedCounts_def mergeStatus_def
  getIncompleteMigrationRun_def getProcessedUsersForRun_def getAllVerifiedUsers_def
  createMigrationRun_def next_run_id_def completeMigrationRun_def writeAuditLog_def
  logMigrationUser_def has_def
  processUser_def processSingleUser_def tally_def counted_failed_def
  ensureFreshToken_def refreshToken_def request_token_endpoint_def refreshCatch_def decrypt_def encrypt_def falsy_def
  js_or_def template_def
  updateTokens_def markTokenRevoked_def TOKEN_REFRESH_BUFFER_SECONDS_def
  retryWithBackoff_def retry_loop.simps joinOptions_def joinAttempt_def addUserToGuild_def
  Let_def

section \<open>Revoked users\<close>

lemma subseq_in_set: "subseq xs ys \<Longrightarrow> x \<in> set xs \<Longrightarrow> x \<in> set ys"
  by (auto dest: list_emb_set)

text \<open>
  C9. \<open>getAllVerifiedUsers\<close> returns no revoked user. So every row a call of
  \<open>executeMigration\<close> appends to the item log belongs to a user that was not revoked in
  the store at the start of the call, and none of them is the row that \<open>processSingleUser\<close>
  writes for a user revoked earlier (status \<open>token_revoked\<close>, detail
  \<open>Token previously revoked\<close>): that branch is not reached. With the ids of the store
  distinct, a user revoked at the start gets no row at all.
\<close>

theorem revoked_users_never_processed:
  assumes "executeMigration cfg env g author d = (res, d')"
  shows "list_all (\<lambda>u. \<not> token_revoked u) (getAllVerifiedUsers d)
       \<and> (\<exists>rows. migration_user_log d' = migration_user_log d @ rows
            \<and> \<not> list_ex precheck_row rows
            \<and> list_all (\<lambda>row. \<exists>u \<in> set (verified_users d).
                                 discord_id u = log_discord_id row \<and> \<not> token_revoked u) rows
            \<and> (distinct (map discord_id (verified_users d)) \<longrightarrow>
                 list_all (\<lambda>u. token_revoked u \<longrightarrow> discord_id u \<notin> set (map log_discord_id rows))
                   (verified_users d)))"
proof -
  from executeMigration_log [OF assms] obtain rows where
    rows: "migration_user_log d' = migration_user_log d @ rows"
    and ids: "subseq (map log_discord_id rows) (map discord_id (getAllVerifiedUsers d))"
    and pre: "\<not> list_ex precheck_row rows"
    by blast
  have live: "\<exists>u \<in> set (verified_users d). discord_id u = i \<and> \<not> token_revoked u"
    if "i \<in> set (map log_discord_id rows)" for i
  proof -
    from subseq_in_set [OF ids that] obtain u where "u \<in> set (getAllVerifiedUsers d)"
      and "discord_id u = i" by auto
    then show ?thesis
      by (auto simp: getAllVerifiedUsers_def)
  qed
  have owners: "list_all (\<lambda>row. \<exists>u \<in> set (verified_users d).
                                 discord_id u = log_discord_id row \<and> \<not> token_revoked u) rows"
    unfolding list_all_iff using live by simp
  have none: "list_all (\<lambda>u. token_revoked u \<longrightarrow> discord_id u \<notin> set (map log_discord_id rows))
                   (verified_users d)"
    if dist: "distinct (map discord_id (verified_users d))"
    unfolding list_all_iff
  proof (intro ballI impI notI)
    fix u assume u: "u \<in> set (verified_users d)" and rev: "token_revoked u"
      and "discord_id u \<in> set (map log_discord_id rows)"
    from live [OF this(3)] obtain v where v: "v \<in> set (verified_users d)"
      and same: "discord_id v = discord_id u" and "\<not> token_revoked v" by blast
    from dist have "inj_on discord_id (set (verified_users d))" by (simp add: distinct_map)
    with u v same have "v = u" by (auto dest: inj_onD)
    with rev \<open>\<not> token_revoked v\<close> show False by simp
  qed
  from rows pre owners none getAllVerifiedUsers_live [of d] show ?thesis by blast
qed

lemma example_run:
  "fst (executeMigration example_config example_env target_guild owner spec_example_store) = Inr ()"
  "map run_counts (migration_runs
      (snd (executeMigration example_config example_env target_guild owner spec_example_store)))
     = [(1, 0, 1, 0, 0)]"
  "map status (migration_runs
      (snd (executeMigration example_config example_env target_guild owner spec_example_store)))
     = [''completed'']"
  "map total_users (migration_runs
      (snd (executeMigration example_config example_env target_guild owner spec_example_store)))
     = [2]"
  "map log_entry (migration_user_log
      (snd (executeMigration example_config example_env target_guild owner spec_example_store)))
     = [(1, ''1001'', ''added''), (1, ''1002'', ''skipped_manual'')]"
  by (simp_all add: example_defs status_defs engine_defs)

theorem revoked_users_never_processed_witness:
  "distinct (map discord_id (verified_users spec_example_store))
   \<and> token_revoked user_C
   \<and> discord_id user_C \<notin> set (map log_discord_id (migration_user_log
        (snd (executeMigration example_config example_env target_guild owner spec_example_store))))
   \<and> \<not> list_ex precheck_row (migration_user_log
        (snd (executeMigration example_config example_env target_guild owner spec_example_store)))"
proof -
  let ?d' = "snd (executeMigration example_config example_env target_guild owner spec_example_store)"
  have dist: "distinct (map discord_id (verified_users spec_example_store))"
    and c: "token_revoked user_C" "user_C \<in> set (verified_users spec_example_store)"
    and empty: "migration_user_log spec_example_store = []"
    by (simp_all add: example_defs)
  from revoked_users_never_processed
    [of example_config example_env target_guild owner spec_example_store
      "fst (executeMigration example_config example_env target_guild owner spec_example_store)" ?d']
  obtain rows where "migration_user_log ?d' = migration_user_log spec_example_store @ rows"
    and "\<not> list_ex precheck_row rows"
    and "distinct (map discord_id (verified_users spec_example_store)) \<longrightarrow>
           list_all (\<lambda>u. token_revoked u \<longrightarrow> discord_id u \<notin> set (map log_discord_id rows))
             (verified_users spec_example_store)"
    by auto
  with dist c empty show ?thesis
    by (auto simp: list_all_iff)
qed

section \<open>The example of the specification\<close>

text \<open>
  C8, as the code has it. The store holds \<open>A\<close> (valid tokens), \<open>B\<close> (verified by hand, no
  tokens) and \<open>C\<close> (revoked), and the join of \<open>A\<close> is answered with 201. The users fetched
  are \<open>A\<close> and \<open>B\<close>; the run completes with the counters added 1, already in 0, skipped
  manual 1, token revoked 0, failed 0 and a total of 2; the item log holds \<open>A\<close> as added
  and \<open>B\<close> as skipped, and nothing for \<open>C\<close>.
\<close>

theorem example_run_counts:
  "getAllVerifiedUsers spec_example_store = [user_A, user_B]
   \<and> fst (executeMigration example_config example_env target_guild owner spec_example_store)
       = Inr ()
   \<and> map run_counts (migration_runs
        (snd (executeMigration example_config example_env target_guild owner spec_example_store)))
       = [(1, 0, 1, 0, 0)]
   \<and> map status (migration_runs
        (snd (executeMigration example_config example_env target_guild owner spec_example_store)))
       = [''completed'']
   \<and> map total_users (migration_runs
        (snd (executeMigration example_config example_env target_guild owner spec_example_store)))
       = [2]
   \<and> map log_entry (migration_user_log
        (snd (executeMigration example_config example_env target_guild owner spec_example_store)))
       = [(1, ''1001'', ''added''), (1, ''1002'', ''skipped_manual'')]"
proof -
  have "getAllVerifiedUsers spec_example_store = [user_A, user_B]"
    by (simp add: getAllVerifiedUsers_def example_defs)
  with example_run show ?thesis by simp
qed

theorem example_run_counts_counterexample:
  "map run_counts (migration_runs
      (snd (executeMigration example_config example_env target_guild owner spec_example_store)))
     \<noteq> [(1, 0, 1, 1, 0)]"
  by (simp add: example_run)

text \<open>
  The loop itself, handed the three users, would count \<open>C\<close> as token revoked: the check
  is there, but no call of \<open>executeMigration\<close> reaches it.
\<close>

lemma loop_on_revoked_user:
  "map_sum fst cnt
     (processUsers example_config example_env target_guild 1 [user_A, user_B, user_C]
        (startPass \<lparr>migrationRun = fst (createMigrationRun 1700000000000 target_guild owner 3
                                          spec_example_store),
                    alreadyProcessed = [], allUsers = [user_A, user_B, user_C],
                    usersToProcess = [user_A, user_B, user_C]\<rparr> spec_example_store))
     = Inr \<lparr>added = 1, alreadyIn = 0, failed = 0, skippedManual = 1, tokenRevoked = 1, total = 3\<rparr>"
  by (simp add: example_defs status_defs engine_defs)

section \<open>Errors inside the loop and the item log\<close>

text \<open>
  C6 at a failing input. Every join of \<open>A\<close> is answered with 429, so the third attempt
  throws \<open>RATE_LIMITED\<close> out of \<open>processSingleUser\<close>. The error is caught and counted, and
  the loop goes on to \<open>B\<close>; the run completes with failed 1 and skipped manual 1. The
  item log holds the row of \<open>B\<close> and no row for \<open>A\<close>.
\<close>

theorem caught_error_is_not_logged:
  "fst (executeMigration example_config (rate_limited_env ''1001'') target_guild owner
         spec_example_store) = Inr ()
   \<and> map status (migration_runs
        (snd (executeMigration example_config (rate_limited_env ''1001'') target_guild owner
                spec_example_store)))
       = [''completed'']
   \<and> map run_counts (migration_runs
        (snd (executeMigration example_config (rate_limited_env ''1001'') target_guild owner
                spec_example_store)))
       = [(0, 0, 1, 0, 1)]
   \<and> map log_entry (migration_user_log
        (snd (executeMigration example_config (rate_limited_env ''1001'') target_guild owner
                spec_example_store)))
       = [(1, ''1002'', ''skipped_manual'')]"
  by (simp add: example_defs status_defs engine_defs)

text \<open>
  C1 at a failing input. The store holds \<open>A\<close> and \<open>D\<close>, both with valid tokens; the join
  of \<open>A\<close> is answered with 201 and every join of \<open>D\<close> with 429. The first call is
  terminated after one user: run 1 is \<open>running\<close> and the log holds \<open>A\<close>. The second call
  takes run 1 up again, leaves \<open>A\<close> out and processes \<open>D\<close>, whose error is caught. The run
  completes with added 1 and failed 1, and the final item log still holds \<open>A\<close> alone: the
  candidate \<open>D\<close> is in it zero times.
\<close>

theorem resumed_run_omits_failed_candidate:
  "map status (migration_runs
      (interruptedMigration example_config (rate_limited_env ''1004'') target_guild owner 1
         resume_store)) = [''running'']
   \<and> map log_entry (migration_user_log
      (interruptedMigration example_config (rate_limited_env ''1004'') target_guild owner 1
         resume_store)) = [(1, ''1001'', ''added'')]
   \<and> map discord_id (getAllVerifiedUsers
      (interruptedMigration example_config (rate_limited_env ''1004'') target_guild owner 1
         resume_store)) = [''1001'', ''1004'']
   \<and> fst (executeMigration example_config (rate_limited_env ''1004'') target_guild owner
      (interruptedMigration example_config (rate_limited_env ''1004'') target_guild owner 1
         resume_store)) = Inr ()
   \<and> map status (migration_runs (snd
      (executeMigration example_config (rate_limited_env ''1004'') target_guild owner
        (interruptedMigration example_config (rate_limited_env ''1004'') target_guild owner 1
           resume_store)))) = [''completed'']
   \<and> map run_counts (migration_runs (snd
      (executeMigration example_config (rate_limited_env ''1004'') target_guild owner
        (interruptedMigration example_config (rate_limited_env ''1004'') target_guild owner 1
           resume_store)))) = [(1, 0, 0, 0, 1)]
   \<and> map log_entry (migration_user_log (snd
      (executeMigration example_config (rate_limited_env ''1004'') target_guild owner
        (interruptedMigration example_config (rate_limited_env ''1004'') target_guild owner 1
           resume_store)))) = [(1, ''1001'', ''added'')]"
  by (simp add: example_defs status_defs engine_defs)


section \<open>The counter for revoked tokens\<close>

lemma tally_tokenRevoked:
  "tokenRevoked (tally result c) = tokenRevoked c + (if revoked_outcome result then 1 else 0)"
  by (auto simp: tally_def revoked_outcome_def status_defs)

lemma mergeStatus_tokenRevoked:
  "tokenRevoked (mergeStatus st c) = tokenRevoked c + (if revoked_outcome st then 1 else 0)"
  by (auto simp: mergeStatus_def revoked_outcome_def status_defs)

lemma merged_tokenRevoked:
  "tokenRevoked (foldl (\<lambda>c' entry. mergeStatus (snd entry) c') c already)
     = tokenRevoked c + length (filter (\<lambda>entry. revoked_outcome (snd entry)) already)"
  by (induction already arbitrary: c) (simp_all add: mergeStatus_tokenRevoked)

lemma mergedCounts_tokenRevoked:
  "tokenRevoked (mergedCounts already c)
     = tokenRevoked c + length (filter (\<lambda>entry. revoked_outcome (snd entry)) already)"
  by (cases already) (simp_all add: mergedCounts_def merged_tokenRevoked del: foldl_Cons)

text \<open>
  After the loop the counter has grown by the number of rows the loop appended with the
  status \<open>token_revoked\<close> or \<open>refresh_failed\<close>.
\<close>

lemma processUsers_tokenRevoked:
  assumes "processUsers cfg env g rid users p = Inr p'"
  shows "\<exists>rows. migration_user_log (db p') = migration_user_log (db p) @ rows
           \<and> migration_runs (db p') = migration_runs (db p)
           \<and> tokenRevoked (cnt p')
               = tokenRevoked (cnt p) + length (filter (\<lambda>row. revoked_outcome (log_status row)) rows)"
  using assms
proof (induction users arbitrary: p)
  case Nil
  then show ?case by simp
next
  case (Cons user users)
  show ?case
  proof (cases rule: processUser_cases [of cfg env g rid user p])
    case (logged result detail d1)
    let ?p1 = "p\<lparr>db := d1, cnt := tally result (cnt p), processed := Suc (processed p),
                 failedUsers := (if counted_failed result
                                 then failedUsers p @ [discord_id user] else failedUsers p)\<rparr>"
    let ?row = "\<lparr>migration_run_id = rid, log_discord_id = discord_id user, log_status = result,
              log_error_message = detail, attempted_at = sql_now env\<rparr>"
    from Cons.prems logged(1) have "processUsers cfg env g rid users ?p1 = Inr p'" by simp
    from Cons.IH [OF this] obtain rows where
      "migration_user_log (db p') = migration_user_log (db ?p1) @ rows"
      "migration_runs (db p') = migration_runs (db ?p1)"
      "tokenRevoked (cnt p')
         = tokenRevoked (cnt ?p1) + length (filter (\<lambda>row. revoked_outcome (log_status row)) rows)"
      by blast
    with logged(2,4) show ?thesis
      by (intro exI [of _ "?row # rows"]) (simp add: tally_tokenRevoked)
  next
    case (caught message d1)
    let ?p1 = "p\<lparr>db := d1, cnt := (cnt p)\<lparr>failed := failed (cnt p) + 1\<rparr>,
                 processed := Suc (processed p),
                 failedUsers := failedUsers p @ [discord_id user]\<rparr>"
    from Cons.prems caught(2) have "processUsers cfg env g rid users ?p1 = Inr p'" by simp
    from Cons.IH [OF this] obtain rows where
      "migration_user_log (db p') = migration_user_log (db ?p1) @ rows"
      "migration_runs (db p') = migration_runs (db ?p1)"
      "tokenRevoked (cnt p')
         = tokenRevoked (cnt ?p1) + length (filter (\<lambda>row. revoked_outcome (log_status row)) rows)"
      by blast
    with caught(3,4) show ?thesis
      by (intro exI [of _ rows]) simp
  next
    case (aborted d1)
    with Cons.prems show ?thesis by simp
  qed
qed

lemma getIncompleteMigrationRun_member:
  assumes "getIncompleteMigrationRun g d = Some run"
  shows "run \<in> set (migration_runs d)" and "target_guild_id run = g" and "status run = ''running''"
proof -
  let ?open = "filter (\<lambda>r. target_guild_id r = g \<and> status r = ''running'') (migration_runs d)"
  from assms obtain rs where "rev (sort_key started_at ?open) = run # rs"
    by (auto simp: getIncompleteMigrationRun_def split: list.splits)
  then have "run \<in> set (rev (sort_key started_at ?open))" by simp
  then have "run \<in> set ?open" by simp
  then show "run \<in> set (migration_runs d)" and "target_guild_id run = g"
    and "status run = ''running''"
    by simp_all
qed

lemma prepareRun_runs:
  assumes "prepareRun env g author resolved d = (Inr prep, d1)"
  shows "migration_runs d1
       = (case fst resolved of
            Some run \<Rightarrow> migration_runs d
          | None \<Rightarrow> migration_runs d @ [migrationRun prep])"
proof -
  define users where "users = getAllVerifiedUsers d"
  define todo where "todo = (if 0 < length (snd resolved)
          then filter (\<lambda>u. \<not> has (snd resolved) (discord_id u)) users else users)"
  define created where "created = createMigrationRun (sql_now env) g author (length users) d"
  define run where "run = (case fst resolved of Some r \<Rightarrow> r | None \<Rightarrow> fst created)"
  define start where "start = \<lparr>migrationRun = run, alreadyProcessed = snd resolved,
    allUsers = users, usersToProcess = todo\<rparr>"
  have unfold: "prepareRun env g author resolved d
      = (case throws env GetAllVerifiedUsers of
           Some e \<Rightarrow> (Inl e, d)
         | None \<Rightarrow>
             if users = [] then (Inl ''No verified users found in the database.'', d)
             else (case fst resolved of
                     Some r \<Rightarrow> announceStart env g author start d
                   | None \<Rightarrow>
                       (case throws env CreateMigrationRun of
                          Some e \<Rightarrow> (Inl e, d)
                        | None \<Rightarrow> announceStart env g author start (snd created))))"
    by (simp add: prepareRun_def Let_def users_def todo_def created_def run_def start_def
        split: option.splits)
  have c: "migration_runs (snd created) = migration_runs d @ [fst created]"
    by (simp add: created_def createMigrationRun_def Let_def)
  show ?thesis
  proof (cases "fst resolved")
    case None
    with assms have "announceStart env g author start (snd created) = (Inr prep, d1)"
      unfolding unfold by (simp split: option.splits if_splits)
    from announceStart_effect [OF this] c None show ?thesis
      by (simp add: start_def run_def)
  next
    case (Some r)
    with assms have "announceStart env g author start d = (Inr prep, d1)"
      unfolding unfold by (simp split: option.splits if_splits)
    from announceStart_effect [OF this] Some show ?thesis by simp
  qed
qed

lemma finalizeRun_completed:
  assumes "finalizeRun env g author prep p = (Inr u, d')"
  shows "migration_runs d'
       = migration_runs (completeMigrationRun (sql_now env) (run_id (migrationRun prep))
           (mergedCounts (alreadyProcessed prep) (cnt p)) (db p))"
    and "migration_user_log d' = migration_user_log (db p)"
  using assms
  by (auto simp: finalizeRun_def Let_def writeAuditLog_def completeMigrationRun_def
      split: option.splits if_splits)

lemma completeMigrationRun_run:
  "list_all (\<lambda>r. run_id r = rid \<longrightarrow> status r = ''completed'' \<and> token_revoked_count r = tokenRevoked c)
     (migration_runs (completeMigrationRun now rid c d))"
  by (simp add: completeMigrationRun_def list_all_iff del: if_image_distrib)

lemma completeMigrationRun_ids:
  "map run_id (migration_runs (completeMigrationRun now rid c d)) = map run_id (migration_runs d)"
  by (simp add: completeMigrationRun_def comp_def if_distrib cong: if_cong)

text \<open>
  C10. Both switches add a \<open>refresh_failed\<close> to the counter of \<open>token_revoked\<close>. So in
  the record of a run that a call of \<open>executeMigration\<close> completed (the run it took up
  again, or the one it created), \<open>token_revoked_count\<close> is the number of entries of the
  earlier log's map plus the number of rows this call appended whose status is
  \<open>token_revoked\<close> or \<open>refresh_failed\<close>; the record has the five counters that
  \<open>completeMigrationRun\<close> writes and none for \<open>refresh_failed\<close>.
\<close>

theorem refresh_failed_counted_as_token_revoked:
  assumes "executeMigration cfg env g author d = (Inr u, d')"
  shows "tally REFRESH_FAILED c = c\<lparr>tokenRevoked := tokenRevoked c + 1\<rparr>
       \<and> tally TOKEN_REVOKED c = c\<lparr>tokenRevoked := tokenRevoked c + 1\<rparr>
       \<and> mergeStatus REFRESH_FAILED c = c\<lparr>tokenRevoked := tokenRevoked c + 1\<rparr>
       \<and> mergeStatus TOKEN_REVOKED c = c\<lparr>tokenRevoked := tokenRevoked c + 1\<rparr>
       \<and> (\<exists>rid already rows.
             (rid, already)
               = (case getIncompleteMigrationRun g d of
                    Some run \<Rightarrow> (run_id run, getProcessedUsersForRun (run_id run) d)
                  | None \<Rightarrow> (next_run_id d, []))
           \<and> migration_user_log d' = migration_user_log d @ rows
           \<and> rid \<in> set (map run_id (migration_runs d'))
           \<and> list_all (\<lambda>r. run_id r = rid \<longrightarrow>
                   status r = ''completed''
                   \<and> token_revoked_count r
                       = length (filter (\<lambda>entry. revoked_outcome (snd entry)) already)
                         + length (filter (\<lambda>row. revoked_outcome (log_status row)) rows))
                (migration_runs d'))"
proof -
  have switches: "tally REFRESH_FAILED c = c\<lparr>tokenRevoked := tokenRevoked c + 1\<rparr>"
    "tally TOKEN_REVOKED c = c\<lparr>tokenRevoked := tokenRevoked c + 1\<rparr>"
    "mergeStatus REFRESH_FAILED c = c\<lparr>tokenRevoked := tokenRevoked c + 1\<rparr>"
    "mergeStatus TOKEN_REVOKED c = c\<lparr>tokenRevoked := tokenRevoked c + 1\<rparr>"
    by (simp_all add: tally_def mergeStatus_def status_defs)
  from assms obtain resolved where res: "resolveRun env g d = Inr resolved"
    by (cases "resolveRun env g d") (simp_all add: executeMigration_def)
  from assms res obtain prep d1 where prep: "prepareRun env g author resolved d = (Inr prep, d1)"
    by (cases "prepareRun env g author resolved d")
      (auto simp: executeMigration_def split: sum.splits)
  let ?rid = "run_id (migrationRun prep)"
  from assms res prep obtain p where
    loop: "processUsers cfg env g ?rid (usersToProcess prep) (startPass prep d1) = Inr p"
    and fin: "finalizeRun env g author prep p = (Inr u, d')"
    by (cases "processUsers cfg env g ?rid (usersToProcess prep) (startPass prep d1)")
      (auto simp: executeMigration_def)
  from processUsers_tokenRevoked [OF loop] obtain rows where
    rows: "migration_user_log (db p) = migration_user_log d1 @ rows"
    and kept: "migration_runs (db p) = migration_runs d1"
    and count: "tokenRevoked (cnt p) = length (filter (\<lambda>row. revoked_outcome (log_status row)) rows)"
    by (auto simp: startPass_def)
  let ?c = "mergedCounts (alreadyProcessed prep) (cnt p)"
  note completed = finalizeRun_completed [OF fin]
  have log: "migration_user_log d' = migration_user_log d @ rows"
    using completed(2) rows prepareRun_effect(1) [OF prep] by simp
  have total: "tokenRevoked ?c
      = length (filter (\<lambda>entry. revoked_outcome (snd entry)) (snd resolved))
        + length (filter (\<lambda>row. revoked_outcome (log_status row)) rows)"
    using count by (simp add: mergedCounts_tokenRevoked prepareRun_prepared(1) [OF prep])
  have counted: "list_all (\<lambda>r. run_id r = ?rid \<longrightarrow>
                   status r = ''completed''
                   \<and> token_revoked_count r
                       = length (filter (\<lambda>entry. revoked_outcome (snd entry)) (snd resolved))
                         + length (filter (\<lambda>row. revoked_outcome (log_status row)) rows))
                (migration_runs d')"
    using completeMigrationRun_run [of ?rid ?c "sql_now env" "db p"] completed(1) total by simp
  have ids: "map run_id (migration_runs d') = map run_id (migration_runs d1)"
    using completed(1) kept by (simp add: completeMigrationRun_ids)
  note which = prepareRun_prepared(4) [OF prep] and runs1 = prepareRun_runs [OF prep]
  from res show ?thesis
  proof (cases rule: resolveRun_cases [of env g d])
    case (refused e)
    with res show ?thesis by simp
  next
    case new
    with res have r: "resolved = (None, [])" by simp
    from which r have "?rid = next_run_id d"
      by (simp add: createMigrationRun_def Let_def)
    moreover from runs1 r have "?rid \<in> set (map run_id (migration_runs d1))" by simp
    ultimately show ?thesis
      using switches log counted ids new(2) r
      by (intro conjI exI [of _ ?rid] exI [of _ "[]"] exI [of _ rows]) simp_all
  next
    case (resumed run)
    with res have r: "resolved = (Some run, getProcessedUsersForRun (run_id run) d)" by simp
    from which r have rid: "?rid = run_id run" by simp
    from runs1 r getIncompleteMigrationRun_member(1) [OF resumed(2)]
    have "run_id run \<in> set (map run_id (migration_runs d1))" by simp
    with rid show ?thesis
      using switches log counted ids resumed(2) r
      by (intro conjI exI [of _ ?rid] exI [of _ "getProcessedUsersForRun (run_id run) d"]
          exI [of _ rows]) simp_all
  qed
qed

text \<open>
  A run over \<open>A\<close> and \<open>E\<close> with the token endpoint out of reach: \<open>E\<close> is logged as
  \<open>refresh_failed\<close> and counted in \<open>token_revoked_count\<close>.
\<close>

lemma refresh_failed_run:
  "fst (executeMigration example_config example_env target_guild owner expiring_store) = Inr ()"
  "map run_counts (migration_runs
      (snd (executeMigration example_config example_env target_guild owner expiring_store)))
     = [(1, 0, 0, 1, 0)]"
  "map log_entry (migration_user_log
      (snd (executeMigration example_config example_env target_guild owner expiring_store)))
     = [(1, ''1001'', ''added''), (1, ''1005'', ''refresh_failed'')]"
  by (simp_all add: example_defs status_defs engine_defs)

theorem refresh_failed_counted_as_token_revoked_witness:
  "executeMigration example_config example_env target_guild owner expiring_store
     = (Inr (), snd (executeMigration example_config example_env target_guild owner expiring_store))
   \<and> map log_entry (migration_user_log
        (snd (executeMigration example_config example_env target_guild owner expiring_store)))
       = [(1, ''1001'', ''added''), (1, ''1005'', ''refresh_failed'')]
   \<and> map token_revoked_count (migration_runs
        (snd (executeMigration example_config example_env target_guild owner expiring_store)))
       = [1]"
proof -
  let ?d' = "snd (executeMigration example_config example_env target_guild owner expiring_store)"
  have run: "executeMigration example_config example_env target_guild owner expiring_store
      = (Inr (), ?d')"
    using refresh_failed_run(1) by (simp add: prod_eq_iff)
  have start: "getIncompleteMigrationRun target_guild expiring_store = None"
    "next_run_id expiring_store = 1" "migration_user_log expiring_store = []"
    by (simp_all add: getIncompleteMigrationRun_def next_run_id_def example_defs)
  have ids: "map run_id (migration_runs ?d') = [1]"
    by (simp add: example_defs status_defs engine_defs)
  from refresh_failed_counted_as_token_revoked [OF run] start
  obtain rows where rows: "migration_user_log ?d' = rows"
    and counted: "list_all (\<lambda>r. run_id r = 1 \<longrightarrow>
        token_revoked_count r = length (filter (\<lambda>row. revoked_outcome (log_status row)) rows))
      (migration_runs ?d')"
    by (auto simp: list_all_iff)
  have "map log_status (migration_user_log ?d') = [''added'', ''refresh_failed'']"
    by (simp add: example_defs status_defs engine_defs)
  with rows have "map log_status rows = [''added'', ''refresh_failed'']" by simp
  then have "length (filter (\<lambda>row. revoked_outcome (log_status row)) rows) = 1"
    by (auto simp: revoked_outcome_def status_defs map_eq_Cons_conv)
  with counted ids have "map token_revoked_count (migration_runs ?d') = [1]"
    by (auto simp: list_all_iff map_eq_Cons_conv)
  with run refresh_failed_run(3) show ?thesis by simp
qed

section \<open>The loop runs to its end\<close>

text \<open>With at least one attempt configured a join throws an error, never \<open>undefined\<close>.\<close>

lemma processSingleUser_defined:
  assumes "0 < retryAttempts cfg"
  shows "fst (processSingleUser cfg env user g rid d) \<noteq> Inl Undefined"
proof
  assume u: "fst (processSingleUser cfg env user g rid d) = Inl Undefined"
  let ?fresh = "ensureFreshToken env user d"
  from u obtain accessTok where
    "outcome (retryWithBackoff (joinAttempt env g (discord_id user) accessTok) (joinOptions cfg))
       = Inl Undefined"
    by (auto simp: processSingleUser_def Let_def split: if_splits sum.splits)
  moreover have "1 \<le> maxAttempts (joinOptions cfg)"
    using assms by (simp add: joinOptions_def)
  ultimately show False
    unfolding retryWithBackoff_def using retry_loop_defined by blast
qed

lemma tally_one:
  "added (tally result c) + alreadyIn (tally result c) + failed (tally result c)
     + skippedManual (tally result c) + tokenRevoked (tally result c)
   = Suc (added c + alreadyIn c + failed c + skippedManual c + tokenRevoked c)"
  "total (tally result c) = total c"
  by (simp_all add: tally_def)

text \<open>
  With at least one attempt configured the loop runs to its end, whatever happens to a
  user: each user of the list is counted in exactly one of the five counters.
\<close>

lemma processUsers_total:
  assumes "0 < retryAttempts cfg"
  shows "\<exists>p'. processUsers cfg env g rid users p = Inr p'
           \<and> processed p' = processed p + length users
           \<and> added (cnt p') + alreadyIn (cnt p') + failed (cnt p') + skippedManual (cnt p')
               + tokenRevoked (cnt p')
             = added (cnt p) + alreadyIn (cnt p) + failed (cnt p) + skippedManual (cnt p)
               + tokenRevoked (cnt p) + length users
           \<and> total (cnt p') = total (cnt p)"
proof (induction users arbitrary: p)
  case Nil
  show ?case by simp
next
  case (Cons user users)
  show ?case
  proof (cases rule: processUser_cases [of cfg env g rid user p])
    case (logged result detail d1)
    let ?p1 = "p\<lparr>db := d1, cnt := tally result (cnt p), processed := Suc (processed p),
                 failedUsers := (if counted_failed result
                                 then failedUsers p @ [discord_id user] else failedUsers p)\<rparr>"
    from Cons.IH [of ?p1] logged(1) show ?thesis
      by (auto simp: tally_one)
  next
    case (caught message d1)
    let ?p1 = "p\<lparr>db := d1, cnt := (cnt p)\<lparr>failed := failed (cnt p) + 1\<rparr>,
                 processed := Suc (processed p),
                 failedUsers := failedUsers p @ [discord_id user]\<rparr>"
    from Cons.IH [of ?p1] caught(2) show ?thesis
      by auto
  next
    case (aborted d1)
    with processSingleUser_defined [OF assms, of env user g rid "db p"] show ?thesis by simp
  qed
qed

text \<open>
  With no attempt configured \<open>retryWithBackoff\<close> throws \<open>undefined\<close>; the handler of the
  loop fails on it and the call is left by a \<open>TypeError\<close> at the first user with a token.
\<close>

lemma no_attempts_configured:
  "fst (pull (example_config\<lparr>retryAttempts := 0\<rparr>) example_env target_guild owner
         spec_example_store)
     = Some ''Migration failed: Cannot read properties of undefined (reading 'message')''"
  "map status (migration_runs
      (snd (pull (example_config\<lparr>retryAttempts := 0\<rparr>) example_env target_guild owner
              spec_example_store)))
     = [''running'']"
  by (simp_all add: example_defs status_defs engine_defs)


section \<open>Taking a run up again\<close>


lemma subseq_distinct: "subseq xs ys \<Longrightarrow> distinct ys \<Longrightarrow> distinct xs"
  by (auto simp: subseq_conv_nths intro: distinct_nthsI)

lemma fold_max_upper: "a \<le> fold max xs a" "x \<in> set xs \<Longrightarrow> x \<le> fold max xs (a::nat)"
proof (induction xs arbitrary: a)
  case Nil
  { case 1 show ?case by simp }
  { case 2 then show ?case by simp }
next
  case (Cons y ys)
  { case 1
    have "max y a \<le> fold max ys (max y a)" by (rule Cons.IH(1))
    then show ?case by simp }
  { case 2
    have "max y a \<le> fold max ys (max y a)" by (rule Cons.IH(1))
    with 2 Cons.IH(2) [of "max y a"] show ?case by auto }
qed

lemma next_run_id_fresh: "next_run_id d \<notin> set (map run_id (migration_runs d))"
proof
  assume "next_run_id d \<in> set (map run_id (migration_runs d))"
  from fold_max_upper(2) [OF this, of 0] show False by (simp add: next_run_id_def)
qed

text \<open>The keys of the map of processed users are the users the log of the run holds.\<close>

lemma update_keys_foldl:
  "fst ` set (foldl (\<lambda>m r. AList.update (f r) (h r) m) m0 rows) = fst ` set m0 \<union> f ` set rows"
  by (induction rows arbitrary: m0) (auto simp: AList.dom_update)

lemma has_processed:
  "has (getProcessedUsersForRun rid d) k \<longleftrightarrow> k \<in> set (logged_ids rid d)"
  by (simp add: has_def getProcessedUsersForRun_def logged_ids_def update_keys_foldl)

lemma processed_empty:
  assumes "getProcessedUsersForRun rid d = []"
  shows "logged_ids rid d = []"
proof (cases "logged_ids rid d")
  case Nil
  then show ?thesis .
next
  case (Cons k ks)
  then have "has (getProcessedUsersForRun rid d) k" by (simp add: has_processed)
  with assms show ?thesis by (simp add: has_def)
qed

text \<open>
  The run and the users of a pass: a run of the target that is \<open>running\<close> is taken up
  again and exactly the users its log holds are left out; otherwise the pass gets a new
  run and all users.
\<close>

lemma prepared_pass:
  assumes res: "resolveRun env g d = Inr resolved"
    and prep: "prepareRun env g author resolved d = (Inr prep, d1)"
  shows "(run_id (migrationRun prep), usersToProcess prep)
       = (case getIncompleteMigrationRun g d of
            Some run \<Rightarrow>
              (run_id run,
               filter (\<lambda>u. discord_id u \<notin> set (logged_ids (run_id run) d)) (getAllVerifiedUsers d))
          | None \<Rightarrow> (next_run_id d, getAllVerifiedUsers d))"
    and "run_id (migrationRun prep) \<in> set (map run_id (migration_runs d1))"
    and "set (map run_id (migration_runs d)) \<subseteq> set (map run_id (migration_runs d1))"
proof -
  note which = prepareRun_prepared(4) [OF prep] and todo = prepareRun_prepared(3) [OF prep]
    and runs1 = prepareRun_runs [OF prep]
  from res have "(run_id (migrationRun prep), usersToProcess prep)
       = (case getIncompleteMigrationRun g d of
            Some run \<Rightarrow>
              (run_id run,
               filter (\<lambda>u. discord_id u \<notin> set (logged_ids (run_id run) d)) (getAllVerifiedUsers d))
          | None \<Rightarrow> (next_run_id d, getAllVerifiedUsers d))
     \<and> run_id (migrationRun prep) \<in> set (map run_id (migration_runs d1))
     \<and> set (map run_id (migration_runs d)) \<subseteq> set (map run_id (migration_runs d1))"
  proof (cases rule: resolveRun_cases [of env g d])
    case (refused e)
    with res show ?thesis by simp
  next
    case new
    with res have r: "resolved = (None, [])" by simp
    from which r have "run_id (migrationRun prep) = next_run_id d"
      by (simp add: createMigrationRun_def Let_def)
    with todo runs1 r new(2) show ?thesis by auto
  next
    case (resumed run)
    with res have r: "resolved = (Some run, getProcessedUsersForRun (run_id run) d)" by simp
    from which r have rid: "run_id (migrationRun prep) = run_id run" by simp
    have "usersToProcess prep
        = filter (\<lambda>u. discord_id u \<notin> set (logged_ids (run_id run) d)) (getAllVerifiedUsers d)"
    proof (cases "getProcessedUsersForRun (run_id run) d = []")
      case True
      with todo r processed_empty [OF True] show ?thesis by simp
    next
      case False
      with todo r show ?thesis by (simp add: has_processed)
    qed
    with rid runs1 r resumed(2) getIncompleteMigrationRun_member(1) [OF resumed(2)]
    show ?thesis by auto
  qed
  then show "(run_id (migrationRun prep), usersToProcess prep)
       = (case getIncompleteMigrationRun g d of
            Some run \<Rightarrow>
              (run_id run,
               filter (\<lambda>u. discord_id u \<notin> set (logged_ids (run_id run) d)) (getAllVerifiedUsers d))
          | None \<Rightarrow> (next_run_id d, getAllVerifiedUsers d))"
    and "run_id (migrationRun prep) \<in> set (map run_id (migration_runs d1))"
    and "set (map run_id (migration_runs d)) \<subseteq> set (map run_id (migration_runs d1))"
    by simp_all
qed

text \<open>The ids of the stored users stay as they are.\<close>

lemma markTokenRevoked_ids:
  "map discord_id (verified_users (markTokenRevoked now discordId d))
     = map discord_id (verified_users d)"
  by (simp add: markTokenRevoked_def comp_def if_distrib cong: if_cong)

lemma updateTokens_ids:
  "map discord_id (verified_users (updateTokens discordId a r t d))
     = map discord_id (verified_users d)"
  by (simp add: updateTokens_def comp_def if_distrib cong: if_cong)

lemma refreshCatch_ids:
  "map discord_id (verified_users (snd (refreshCatch env user d message)))
     = map discord_id (verified_users d)"
  by (simp add: refreshCatch_def markTokenRevoked_ids split: option.splits)

lemma ensureFreshToken_ids:
  "map discord_id (verified_users (store (ensureFreshToken env user d)))
     = map discord_id (verified_users d)"
  by (simp add: ensureFreshToken_def Let_def updateTokens_ids refreshCatch_ids
      split: sum.splits option.splits)

lemma processSingleUser_ids:
  "map discord_id (verified_users (snd (processSingleUser cfg env user g rid d)))
     = map discord_id (verified_users d)"
  by (simp add: processSingleUser_def Let_def logMigrationUser_frame ensureFreshToken_ids
      split: sum.splits)

lemma processUser_store:
  "store_after (processUser cfg env g rid user p) = snd (processSingleUser cfg env user g rid (db p))"
  by (simp add: processUser_def store_after_def split: prod.splits sum.splits thrown.splits)

lemma processUser_ids:
  "map discord_id (verified_users (store_after (processUser cfg env g rid user p)))
     = map discord_id (verified_users (db p))"
  by (simp add: processUser_store processSingleUser_ids)

lemma processUsers_ids:
  "map discord_id (verified_users (store_after (processUsers cfg env g rid users p)))
     = map discord_id (verified_users (db p))"
proof (induction users arbitrary: p)
  case Nil
  show ?case by (simp add: store_after_def)
next
  case (Cons user users)
  show ?case
  proof (cases "processUser cfg env g rid user p")
    case (Inl failure)
    with processUser_ids [of cfg env g rid user p] show ?thesis by simp
  next
    case (Inr p1)
    with processUser_ids [of cfg env g rid user p] Cons.IH [of p1] show ?thesis
      by (simp add: store_after_def)
  qed
qed

lemma prepared_plan:
  assumes "resolveRun env g d = Inr resolved"
    and "prepareRun env g author resolved d = (Inr prep, d1)"
  shows "resumePlan g d = (run_id (migrationRun prep), usersToProcess prep)"
  using prepared_pass(1) [OF assms] by (simp add: resumePlan_def)

lemma onePass_refl: "onePass g d d"
  by (simp add: onePass_def newRows_def)

lemma onePass_store:
  assumes "migration_user_log d' = migration_user_log d''"
    and "map run_id (migration_runs d') = map run_id (migration_runs d'')"
    and "verified_users d' = verified_users d''"
    and "onePass g d d''"
  shows "onePass g d d'"
proof -
  from assms(2) have "set (map run_id (migration_runs d')) = set (map run_id (migration_runs d''))"
    by (rule arg_cong)
  with assms(1,3,4) show ?thesis unfolding onePass_def newRows_def by simp
qed

lemma onePass_prepared:
  assumes "prepareRun env g author resolved d = (res, d1)"
  shows "onePass g d d1"
proof -
  note p1 = prepareRun_effect [OF assms]
  from p1(3) have "set (map run_id (migration_runs d)) \<subseteq> set (map run_id (migration_runs d1))"
    by auto
  with p1(1,2) show ?thesis by (simp add: onePass_def newRows_def)
qed

text \<open>
  A pass that is terminated after any number of users has appended rows of its run,
  for users of its plan, in their order and at most one for each.
\<close>

lemma interruptedMigration_onePass: "onePass g d (interruptedMigration cfg env g author k d)"
proof (cases "resolveRun env g d")
  case (Inl e)
  then show ?thesis by (simp add: interruptedMigration_def onePass_refl)
next
  case (Inr resolved)
  obtain r1 d1 where prep: "prepareRun env g author resolved d = (r1, d1)"
    by (cases "prepareRun env g author resolved d")
  note p1 = prepareRun_effect [OF prep]
  show ?thesis
  proof (cases r1)
    case (Inl e)
    with Inr prep have "interruptedMigration cfg env g author k d = d1"
      by (simp add: interruptedMigration_def)
    with onePass_prepared [OF prep] show ?thesis by simp
  next
    case r1: (Inr prepd)
    let ?rid = "run_id (migrationRun prepd)"
    let ?loop = "processUsers cfg env g ?rid (take k (usersToProcess prepd)) (startPass prepd d1)"
    from prep r1 have prep': "prepareRun env g author resolved d = (Inr prepd, d1)" by simp
    note plan = prepared_plan [OF Inr prep']
      and member = prepared_pass(2) [OF Inr prep'] and older = prepared_pass(3) [OF Inr prep']
    from Inr prep' have store: "interruptedMigration cfg env g author k d = store_after ?loop"
      by (simp add: interruptedMigration_def store_after_def split: sum.splits prod.splits)
    from processUsers_log [of cfg env g ?rid "take k (usersToProcess prepd)" "startPass prepd d1"]
    obtain rows where rows: "migration_user_log (store_after ?loop) = migration_user_log d1 @ rows"
      and runs: "migration_runs (store_after ?loop) = migration_runs d1"
      and rid: "list_all (\<lambda>row. migration_run_id row = ?rid) rows"
      and ids: "subseq (map log_discord_id rows) (map discord_id (take k (usersToProcess prepd)))"
      by (auto simp: startPass_def)
    have "subseq (take k (usersToProcess prepd)) (usersToProcess prepd)"
      by (rule prefix_imp_subseq) (rule take_is_prefix)
    then have "subseq (map discord_id (take k (usersToProcess prepd)))
                 (map discord_id (usersToProcess prepd))"
      by (rule subseq_map)
    with ids have ids': "subseq (map log_discord_id rows) (map discord_id (usersToProcess prepd))"
      by (rule subseq_order.trans)
    have users: "map discord_id (verified_users (store_after ?loop))
               = map discord_id (verified_users d)"
      using processUsers_ids [of cfg env g ?rid "take k (usersToProcess prepd)" "startPass prepd d1"]
        p1(2)
      by (simp add: startPass_def)
    from rows p1(1) have new: "newRows d (store_after ?loop) = rows"
      and old: "take (length (migration_user_log d)) (migration_user_log (store_after ?loop))
              = migration_user_log d"
      by (simp_all add: newRows_def)
    show ?thesis
      unfolding store onePass_def new old plan runs
      using rid ids' member older users by simp
  qed
qed

text \<open>
  A call that returns, with a result or with an error, leaves the item log, the users
  and the run ids of a pass that was terminated after the last user.
\<close>

lemma executeMigration_store:
  assumes "executeMigration cfg env g author d = (res, d')"
  defines "d'' \<equiv> interruptedMigration cfg env g author (length (getAllVerifiedUsers d)) d"
  shows "migration_user_log d' = migration_user_log d''"
    and "map run_id (migration_runs d') = map run_id (migration_runs d'')"
    and "verified_users d' = verified_users d''"
proof -
  have "migration_user_log d' = migration_user_log d''
      \<and> map run_id (migration_runs d') = map run_id (migration_runs d'')
      \<and> verified_users d' = verified_users d''"
  proof (cases "resolveRun env g d")
    case (Inl e)
    with assms(1) show ?thesis by (simp add: d''_def executeMigration_def interruptedMigration_def)
  next
    case (Inr resolved)
    obtain r1 d1 where prep: "prepareRun env g author resolved d = (r1, d1)"
      by (cases "prepareRun env g author resolved d")
    show ?thesis
    proof (cases r1)
      case (Inl e)
      with assms(1) Inr prep show ?thesis
        by (simp add: d''_def executeMigration_def interruptedMigration_def)
    next
      case r1: (Inr prepd)
      from prep r1 have prep': "prepareRun env g author resolved d = (Inr prepd, d1)" by simp
      let ?rid = "run_id (migrationRun prepd)"
      let ?loop = "processUsers cfg env g ?rid (usersToProcess prepd) (startPass prepd d1)"
      have "length (usersToProcess prepd) \<le> length (getAllVerifiedUsers d)"
        by (simp add: prepareRun_prepared(3) [OF prep'])
      then have all: "take (length (getAllVerifiedUsers d)) (usersToProcess prepd)
                    = usersToProcess prepd"
        by simp
      from Inr prep' have store: "d'' = store_after ?loop"
        by (simp add: d''_def interruptedMigration_def all store_after_def
            split: sum.splits prod.splits)
      show ?thesis
      proof (cases ?loop)
        case (Inl failure)
        with assms(1) Inr prep' have "d' = snd failure"
          by (simp add: executeMigration_def split: prod.splits)
        with Inl show ?thesis by (simp add: store store_after_def)
      next
        case loop: (Inr p)
        with assms(1) Inr prep' have "finalizeRun env g author prepd p = (res, d')"
          by (simp add: executeMigration_def)
        note fin = finalizeRun_effect [OF this]
        from fin(3) have "map run_id (migration_runs d') = map run_id (migration_runs (db p))"
          by (auto simp: completeMigrationRun_ids)
        with fin(1,2) loop show ?thesis by (simp add: store store_after_def)
      qed
    qed
  qed
  then show "migration_user_log d' = migration_user_log d''"
    and "map run_id (migration_runs d') = map run_id (migration_runs d'')"
    and "verified_users d' = verified_users d''"
    by simp_all
qed

lemma executeMigration_onePass:
  assumes "executeMigration cfg env g author d = (res, d')"
  shows "onePass g d d'"
  using executeMigration_store [OF assms] interruptedMigration_onePass
  by (rule onePass_store)

text \<open>
  The invariant of the item log: with the primary key of the users and the foreign key
  of the log, a pass keeps the ids of the rows of every run distinct.
\<close>

lemma logged_ids_unknown:
  assumes "list_all (\<lambda>row. migration_run_id row \<in> set (map run_id (migration_runs d)))
             (migration_user_log d)"
    and "rid \<notin> set (map run_id (migration_runs d))"
  shows "logged_ids rid d = []"
proof -
  from assms have "filter (\<lambda>row. migration_run_id row = rid) (migration_user_log d) = []"
    by (auto simp: filter_empty_conv list_all_iff)
  then show ?thesis by (simp add: logged_ids_def)
qed

lemma itemLogInvariant_distinct:
  assumes "itemLogInvariant d"
  shows "distinct (logged_ids rid d)"
proof (cases "rid \<in> set (map run_id (migration_runs d))")
  case True
  with assms show ?thesis by (auto simp: itemLogInvariant_def list_all_iff)
next
  case False
  with assms have "logged_ids rid d = []"
    by (intro logged_ids_unknown) (simp_all add: itemLogInvariant_def)
  then show ?thesis by simp
qed

lemma getAllVerifiedUsers_distinct:
  assumes "distinct (map discord_id (verified_users d))"
  shows "distinct (map discord_id (getAllVerifiedUsers d))"
proof -
  from assms have "distinct (verified_users d)" and inj: "inj_on discord_id (set (verified_users d))"
    by (simp_all add: distinct_map)
  then have "distinct (getAllVerifiedUsers d)" by (simp add: getAllVerifiedUsers_def)
  moreover from inj getAllVerifiedUsers_subset [of d]
  have "inj_on discord_id (set (getAllVerifiedUsers d))" by (rule inj_on_subset)
  ultimately show ?thesis by (simp add: distinct_map)
qed

lemma resumePlan_distinct:
  assumes "distinct (map discord_id (verified_users d))"
  shows "distinct (map discord_id (snd (resumePlan g d)))"
  using getAllVerifiedUsers_distinct [OF assms]
  by (simp add: resumePlan_def distinct_map_filter split: option.splits)

lemma resumePlan_unlogged:
  assumes fk: "list_all (\<lambda>row. migration_run_id row \<in> set (map run_id (migration_runs d)))
             (migration_user_log d)"
  shows "set (map discord_id (snd (resumePlan g d))) \<inter> set (logged_ids (fst (resumePlan g d)) d) = {}"
proof (cases "getIncompleteMigrationRun g d")
  case None
  from fk next_run_id_fresh have "logged_ids (next_run_id d) d = []" by (rule logged_ids_unknown)
  with None show ?thesis by (simp add: resumePlan_def)
next
  case (Some run)
  then show ?thesis by (auto simp: resumePlan_def)
qed

lemma onePass_invariant:
  assumes inv: "itemLogInvariant d" and pass: "onePass g d d'"
  shows "itemLogInvariant d'"
proof -
  define rows where "rows = newRows d d'"
  define rid where "rid = fst (resumePlan g d)"
  define todo where "todo = snd (resumePlan g d)"
  from inv have pk: "distinct (map discord_id (verified_users d))"
    and fk: "list_all (\<lambda>row. migration_run_id row \<in> set (map run_id (migration_runs d)))
               (migration_user_log d)"
    by (simp_all add: itemLogInvariant_def)
  from pass have old: "take (length (migration_user_log d)) (migration_user_log d') = migration_user_log d"
    and run: "list_all (\<lambda>row. migration_run_id row = rid) rows"
    and sub: "subseq (map log_discord_id rows) (map discord_id todo)"
    and member: "rows = [] \<or> rid \<in> set (map run_id (migration_runs d'))"
    and older: "set (map run_id (migration_runs d)) \<subseteq> set (map run_id (migration_runs d'))"
    and users: "map discord_id (verified_users d') = map discord_id (verified_users d)"
    by (simp_all add: onePass_def rows_def rid_def todo_def)
  have log: "migration_user_log d' = migration_user_log d @ rows"
    using append_take_drop_id [of "length (migration_user_log d)" "migration_user_log d'"]
    by (simp add: old rows_def newRows_def)
  have other: "logged_ids r d' = logged_ids r d" if "r \<noteq> rid" for r
  proof -
    from run that have "filter (\<lambda>row. migration_run_id row = r) rows = []"
      by (auto simp: filter_empty_conv list_all_iff)
    then show ?thesis by (simp add: logged_ids_def log)
  qed
  have this_run: "logged_ids rid d' = logged_ids rid d @ map log_discord_id rows"
  proof -
    from run have "filter (\<lambda>row. migration_run_id row = rid) rows = rows"
      by (simp add: filter_id_conv list_all_iff)
    then show ?thesis by (simp add: logged_ids_def log)
  qed
  have "distinct (map discord_id todo)"
    unfolding todo_def using pk by (rule resumePlan_distinct)
  with sub have new: "distinct (map log_discord_id rows)" by (rule subseq_distinct)
  have apart: "set (logged_ids rid d) \<inter> set (map log_discord_id rows) = {}"
  proof -
    have "set (map log_discord_id rows) \<subseteq> set (map discord_id todo)"
    proof
      fix x
      assume "x \<in> set (map log_discord_id rows)"
      with sub show "x \<in> set (map discord_id todo)" by (rule subseq_in_set)
    qed
    with resumePlan_unlogged [OF fk, of g] show ?thesis
      unfolding rid_def todo_def by blast
  qed
  have each: "distinct (logged_ids r d')" for r
  proof (cases "r = rid")
    case True
    with itemLogInvariant_distinct [OF inv, of rid] new apart show ?thesis
      by (simp add: this_run)
  next
    case False
    with itemLogInvariant_distinct [OF inv, of r] show ?thesis by (simp add: other)
  qed
  have fk': "list_all (\<lambda>row. migration_run_id row \<in> set (map run_id (migration_runs d')))
               (migration_user_log d')"
  proof -
    from fk older
    have "list_all (\<lambda>row. migration_run_id row \<in> set (map run_id (migration_runs d')))
            (migration_user_log d)"
      unfolding list_all_iff by blast
    moreover from run member
    have "list_all (\<lambda>row. migration_run_id row \<in> set (map run_id (migration_runs d'))) rows"
      by (cases rows) (auto simp: list_all_iff)
    ultimately show ?thesis by (simp add: log)
  qed
  from pk users fk' each show ?thesis by (simp add: itemLogInvariant_def list_all_iff)
qed

text \<open>
  So every call of \<open>executeMigration\<close>, returning or terminated, keeps the invariant: a
  user has at most one row in the log of a run.
\<close>

lemma executeMigration_invariant:
  assumes "itemLogInvariant d" and "executeMigration cfg env g author d = (res, d')"
  shows "itemLogInvariant d'"
  using assms(1) executeMigration_onePass [OF assms(2)] by (rule onePass_invariant)

lemma interruptedMigration_invariant:
  assumes "itemLogInvariant d"
  shows "itemLogInvariant (interruptedMigration cfg env g author k d)"
  using assms interruptedMigration_onePass by (rule onePass_invariant)

text \<open>
  The call after a terminated pass: the run of that pass is still \<open>running\<close> and is the
  one the next call takes up.
\<close>

lemma getIncompleteMigrationRun_runs:
  "migration_runs d' = migration_runs d
     \<Longrightarrow> getIncompleteMigrationRun g d' = getIncompleteMigrationRun g d"
  by (simp add: getIncompleteMigrationRun_def)

lemma getIncompleteMigrationRun_none:
  assumes "getIncompleteMigrationRun g d = None"
  shows "filter (\<lambda>r. target_guild_id r = g \<and> status r = ''running'') (migration_runs d) = []"
proof -
  let ?open = "filter (\<lambda>r. target_guild_id r = g \<and> status r = ''running'') (migration_runs d)"
  from assms have "rev (sort_key started_at ?open) = []"
    by (simp add: getIncompleteMigrationRun_def split: list.splits)
  then have "set (sort_key started_at ?open) = {}" by simp
  then have "set ?open = {}" by (simp only: set_sort)
  then show ?thesis by (simp only: set_empty)
qed

lemma interruptedMigration_running:
  assumes res: "resolveRun env g d = Inr resolved"
    and prep: "prepareRun env g author resolved d = (Inr prep, d1)"
  shows "\<exists>run. getIncompleteMigrationRun g (interruptedMigration cfg env g author k d) = Some run
           \<and> run_id run = fst (resumePlan g d)"
proof -
  let ?rid = "run_id (migrationRun prep)"
  let ?loop = "processUsers cfg env g ?rid (take k (usersToProcess prep)) (startPass prep d1)"
  from res prep have store: "interruptedMigration cfg env g author k d = store_after ?loop"
    by (simp add: interruptedMigration_def store_after_def split: sum.splits prod.splits)
  from processUsers_log [of cfg env g ?rid "take k (usersToProcess prep)" "startPass prep d1"]
  have runs: "migration_runs (store_after ?loop) = migration_runs d1"
    by (auto simp: startPass_def)
  note plan = prepared_plan [OF res prep] and runs1 = prepareRun_runs [OF prep]
    and which = prepareRun_prepared(4) [OF prep]
  from res show ?thesis
  proof (cases rule: resolveRun_cases [of env g d])
    case (refused e)
    with res show ?thesis by simp
  next
    case new
    with res have r: "resolved = (None, [])" by simp
    let ?fresh = "migrationRun prep"
    from which r have fresh: "target_guild_id ?fresh = g" "status ?fresh = ''running''"
      by (simp_all add: createMigrationRun_def Let_def)
    from runs1 r have "migration_runs d1 = migration_runs d @ [?fresh]" by simp
    with getIncompleteMigrationRun_none [OF new(2)] fresh
    have "getIncompleteMigrationRun g (store_after ?loop) = Some ?fresh"
      by (simp add: getIncompleteMigrationRun_def runs)
    with plan show ?thesis by (simp add: store)
  next
    case (resumed run)
    with res have r: "resolved = (Some run, getProcessedUsersForRun (run_id run) d)" by simp
    with runs1 have "migration_runs (store_after ?loop) = migration_runs d" by (simp add: runs)
    then have "getIncompleteMigrationRun g (store_after ?loop) = Some run"
      by (simp add: getIncompleteMigrationRun_runs resumed(2))
    moreover from resumed(2) have "fst (resumePlan g d) = run_id run" by (simp add: resumePlan_def)
    ultimately show ?thesis by (simp add: store)
  qed
qed

text \<open>
  The call that takes a run up again appends to the log it found: the rows are rows of
  that run, for users without a row in it, in their order and at most one for each.
\<close>

lemma executeMigration_resumes:
  assumes run: "getIncompleteMigrationRun g d = Some run"
    and call: "executeMigration cfg env g author d = (res, d')"
  shows "\<exists>rows. migration_user_log d' = migration_user_log d @ rows
           \<and> list_all (\<lambda>row. migration_run_id row = run_id run) rows
           \<and> subseq (map log_discord_id rows)
                (map discord_id
                   (filter (\<lambda>u. discord_id u \<notin> set (logged_ids (run_id run) d))
                      (getAllVerifiedUsers d)))"
proof -
  from run have plan: "resumePlan g d
      = (run_id run,
         filter (\<lambda>u. discord_id u \<notin> set (logged_ids (run_id run) d)) (getAllVerifiedUsers d))"
    by (simp add: resumePlan_def)
  note pass = executeMigration_onePass [OF call, unfolded onePass_def plan fst_conv snd_conv]
  have "migration_user_log d' = migration_user_log d @ newRows d d'"
    using append_take_drop_id [of "length (migration_user_log d)" "migration_user_log d'"] pass
    by (simp add: newRows_def)
  with pass show ?thesis by blast
qed


section \<open>A rejected grant in a run\<close>

text \<open>
  The run over \<open>A\<close> and \<open>E\<close> when the token endpoint answers 400 with \<open>invalid_grant\<close>
  and a description: \<open>E\<close> is logged as \<open>refresh_failed\<close>, not as \<open>token_revoked\<close>, and
  is not marked revoked in the store, so the next run sends its refresh token again.
\<close>

lemma rejected_grant_in_a_run:
  "map log_entry (migration_user_log
      (snd (executeMigration example_config described_grant_env target_guild owner expiring_store)))
     = [(1, ''1001'', ''added''), (1, ''1005'', ''refresh_failed'')]
   \<and> map token_revoked (verified_users
      (snd (executeMigration example_config described_grant_env target_guild owner expiring_store)))
     = [False, False]"
  by (simp add: example_defs status_defs engine_defs)

section \<open>Errors outside the loop\<close>










end
